theory Spec2Isabelle
  imports Main "HOL-Library.Sublist"
begin

section \<open>Strings\<close>

text \<open>
  A JavaScript string is a sequence of UTF-16 code units. The model uses \<^typ>\<open>string\<close>: one
  \<^typ>\<open>char\<close> is one code unit in the range U+0000 .. U+00FF, so \<^const>\<open>length\<close> counts what
  \<^verbatim>\<open>String.prototype.length\<close> and \<^verbatim>\<open>substring\<close> count. The scripts' own literals that lie outside
  that range (the emoji in front of console messages) are kept as named constants holding an ASCII
  escape of the code point. File contents and user input with code units from U+0100 on are outside
  the model.
\<close>

definition newline :: char where
  "newline = CHR 0x0A"

definition carriage_return :: char where
  "carriage_return = CHR 0x0D"

text \<open>\<^verbatim>\<open>String.prototype.toLowerCase\<close> on code units below U+0100: A-Z and the Latin-1 capitals
  U+00C0 .. U+00DE (without the multiplication sign U+00D7) move up by 32.\<close>

definition lower_char :: "char \<Rightarrow> char" where
  "lower_char c =
     (let n = (of_char c :: nat)
      in if (65 \<le> n \<and> n \<le> 90) \<or> (192 \<le> n \<and> n \<le> 222 \<and> n \<noteq> 215)
         then char_of (n + 32) else c)"

definition toLowerCase :: "string \<Rightarrow> string" where
  "toLowerCase s = map lower_char s"

text \<open>White space and line terminators of ECMAScript below U+0100 (what \<^verbatim>\<open>\s\<close> matches and
  \<^verbatim>\<open>trim\<close> strips): TAB, LF, VT, FF, CR, SPACE and NO-BREAK SPACE.\<close>

definition is_space :: "char \<Rightarrow> bool" where
  "is_space c = ((of_char c :: nat) \<in> {9, 10, 11, 12, 13, 32, 160})"

text \<open>Line terminators below U+0100: what \<^verbatim>\<open>.\<close> refuses and where \<^verbatim>\<open>^\<close> and \<^verbatim>\<open>$\<close> anchor under
  the \<^verbatim>\<open>m\<close> flag. ECMAScript has two more, U+2028 (LINE SEPARATOR) and U+2029 (PARAGRAPH
  SEPARATOR); no string of the model holds them, so what is proved of the title and the summary
  of a file is proved of contents that hold neither.\<close>

definition is_line_terminator :: "char \<Rightarrow> bool" where
  "is_line_terminator c = (c = newline \<or> c = carriage_return)"

definition trim :: "string \<Rightarrow> string" where
  "trim s = rev (dropWhile is_space (rev (dropWhile is_space s)))"

definition startsWith :: "string \<Rightarrow> string \<Rightarrow> bool" where
  "startsWith s p = prefix p s"

definition endsWith :: "string \<Rightarrow> string \<Rightarrow> bool" where
  "endsWith s p = suffix p s"

definition includes_str :: "string \<Rightarrow> string \<Rightarrow> bool" where
  "includes_str s t = sublist t s"

text \<open>\<^verbatim>\<open>s.split(d)\<close> for a one-character separator: never empty, \<^verbatim>\<open>''.split(d)\<close> is \<^verbatim>\<open>['']\<close>.\<close>

fun split :: "char \<Rightarrow> string \<Rightarrow> string list" where
  "split d [] = [[]]"
| "split d (c # cs) =
     (if c = d then [] # split d cs
      else (case split d cs of l # ls \<Rightarrow> (c # l) # ls | [] \<Rightarrow> [[c]]))"

text \<open>\<^verbatim>\<open>s.substring(0, n)\<close> is \<^term>\<open>take n s\<close>; \<^verbatim>\<open>s.replace(/\n/g, ' ')\<close> is:\<close>

definition newlines_to_spaces :: "string \<Rightarrow> string" where
  "newlines_to_spaces s = map (\<lambda>c. if c = newline then CHR '' '' else c) s"

text \<open>\<^verbatim>\<open>s.replace(p, r)\<close> with a string pattern: only the first occurrence is replaced (the
  replacement used by the scripts, \<^verbatim>\<open>''\<close>, has no \<^verbatim>\<open>$\<close> pattern).\<close>

fun replace_first :: "string \<Rightarrow> string \<Rightarrow> string \<Rightarrow> string" where
  "replace_first p r [] = (if p = [] then r else [])"
| "replace_first p r (c # cs) =
     (if prefix p (c # cs) then r @ drop (length p) (c # cs)
      else c # replace_first p r cs)"

text \<open>\<^verbatim>\<open>parts.join(sep)\<close>; also the text of a template literal given line by line, and a path
  given by its components.\<close>

fun join_with :: "string \<Rightarrow> string list \<Rightarrow> string" where
  "join_with sep [] = []"
| "join_with sep [x] = x"
| "join_with sep (x # y # ys) = x @ sep @ join_with sep (y # ys)"

text \<open>Decimal rendering of a number inside a template literal.\<close>

definition digit :: "nat \<Rightarrow> char" where
  "digit d = char_of (48 + d)"

function show_nat :: "nat \<Rightarrow> string" where
  "show_nat n = (if n < 10 then [digit n] else show_nat (n div 10) @ [digit (n mod 10)])"
  by pat_completeness auto
termination
  by (relation "measure id") auto

section \<open>The file system\<close>

text \<open>
  A directory is the list of its entries in the order \<^verbatim>\<open>fs.readdirSync\<close> returns them (the order
  is the file system's; the scripts do not sort). A regular file holds its content as
  \<^verbatim>\<open>fs.readFileSync(path, 'utf8')\<close> returns it, and the two fields of \<^verbatim>\<open>fs.statSync\<close> the scripts
  read. Symbolic links and special files are outside the model.
\<close>

record stat =
  st_size :: nat
  st_mtime :: string

datatype node = File string stat | Dir "(string \<times> node) list"

type_synonym entries = "(string \<times> node) list"

text \<open>What the operating system guarantees of a directory listing: names are not empty, hold no
  separator, are not \<^verbatim>\<open>.\<close> or \<^verbatim>\<open>..\<close>, and are pairwise different.\<close>

definition valid_name :: "string \<Rightarrow> bool" where
  "valid_name n = (n \<noteq> [] \<and> CHR ''/'' \<notin> set n \<and> n \<noteq> ''.'' \<and> n \<noteq> ''..'')"

fun wf_entries :: "entries \<Rightarrow> bool" where
  "wf_entries [] = True"
| "wf_entries ((n, File c st) # rest) =
     (valid_name n \<and> n \<notin> fst ` set rest \<and> wf_entries rest)"
| "wf_entries ((n, Dir sub) # rest) =
     (valid_name n \<and> n \<notin> fst ` set rest \<and> wf_entries sub \<and> wf_entries rest)"

text \<open>\<^verbatim>\<open>path.relative(memoryBankDir, p)\<close> for a path \<^verbatim>\<open>p\<close> below the memory bank, given by its
  components (POSIX separator).\<close>

definition path_relative :: "string list \<Rightarrow> string" where
  "path_relative p = join_with ''/'' p"

datatype js_error = ENOENT | ENOTDIR | EISDIR | EEXIST | TypeError | SyntaxError

text \<open>What a process leaves behind: the lines it wrote to its two streams and its exit code.
  An exception nobody catches ends a Node process with exit code 1 after the stack trace went to
  standard error; a script that runs to its end, or returns, exits with code 0.\<close>

record outcome =
  stdout :: "string list"
  stderr :: "string list"
  exit_code :: nat

definition error_name :: "js_error \<Rightarrow> string" where
  "error_name e = (case e of ENOENT \<Rightarrow> ''ENOENT'' | ENOTDIR \<Rightarrow> ''ENOTDIR''
     | EISDIR \<Rightarrow> ''EISDIR'' | EEXIST \<Rightarrow> ''EEXIST'' | TypeError \<Rightarrow> ''TypeError''
     | SyntaxError \<Rightarrow> ''SyntaxError'')"

definition uncaught :: "js_error \<Rightarrow> string list \<Rightarrow> outcome" where
  "uncaught e out = \<lparr>stdout = out, stderr = [''Uncaught '' @ error_name e], exit_code = 1\<rparr>"

text \<open>\<^verbatim>\<open>fs.readdirSync(dir)\<close> on what \<^verbatim>\<open>dir\<close> names.\<close>

definition readdirSync :: "node option \<Rightarrow> js_error + entries" where
  "readdirSync n = (case n of None \<Rightarrow> Inl ENOENT | Some (File c st) \<Rightarrow> Inl ENOTDIR
     | Some (Dir es) \<Rightarrow> Inr es)"

definition isDirectory :: "node \<Rightarrow> bool" where
  "isDirectory n = (case n of Dir es \<Rightarrow> True | File c st \<Rightarrow> False)"

text \<open>Bytes of a string written as UTF-8: code units from U+0080 on take two.\<close>

definition utf8_length :: "string \<Rightarrow> nat" where
  "utf8_length s = length s + length (filter (\<lambda>c. 128 \<le> (of_char c :: nat)) s)"

text \<open>The regular file a write at time \<open>now\<close> leaves.\<close>

definition written :: "string \<Rightarrow> string \<Rightarrow> node" where
  "written content now = File content \<lparr>st_size = utf8_length content, st_mtime = now\<rparr>"

text \<open>A listing after an entry was created or replaced: a replaced entry keeps its place, a new
  one comes last.\<close>

fun put_entry :: "string \<Rightarrow> node \<Rightarrow> entries \<Rightarrow> entries" where
  "put_entry name n [] = [(name, n)]"
| "put_entry name n (e # es) = (if fst e = name then (name, n) # es else e # put_entry name n es)"

text \<open>\<^verbatim>\<open>fs.writeFileSync(path.join(dir, name), content)\<close> in the directory with listing \<open>es\<close>.\<close>

definition writeFileSync :: "entries \<Rightarrow> string \<Rightarrow> string \<Rightarrow> string \<Rightarrow> js_error + entries" where
  "writeFileSync es name content now =
     (case map_of es name of
        Some (Dir sub) \<Rightarrow> Inl EISDIR
      | _ \<Rightarrow> Inr (put_entry name (written content now) es))"

text \<open>Emoji of the console messages (outside the character range of the model).\<close>

definition icon_search :: string where "icon_search = ''<U+1F50D>''"
definition icon_page :: string where "icon_page = ''<U+1F4C4>''"
definition icon_folder :: string where "icon_folder = ''<U+1F4C1>''"
definition icon_open_folder :: string where "icon_open_folder = ''<U+1F4C2>''"
definition icon_sparkles :: string where "icon_sparkles = ''<U+2728>''"
definition icon_rocket :: string where "icon_rocket = ''<U+1F680>''"
definition icon_warning :: string where "icon_warning = ''<U+26A0><U+FE0F>''"
definition icon_check :: string where "icon_check = ''<U+2705>''"
definition icon_arrows :: string where "icon_arrows = ''<U+1F504>''"
definition icon_label :: string where "icon_label = ''<U+1F3F7><U+FE0F>''"
definition icon_disk :: string where "icon_disk = ''<U+1F4BE>''"

section \<open>memory-search.js\<close>

record match =
  match_file :: string
  match_line :: nat
  match_content :: string

text \<open>\<^verbatim>\<open>searchInFile(filePath, term)\<close>: \<open>rel\<close> is \<^verbatim>\<open>path.relative(memoryBankDir, filePath)\<close> and
  \<open>content\<close> what \<^verbatim>\<open>readFileSync\<close> returned.\<close>

definition searchInFile :: "string \<Rightarrow> string \<Rightarrow> string \<Rightarrow> match list" where
  "searchInFile rel content term =
     map (\<lambda>(index, ln). \<lparr>match_file = rel, match_line = index + 1, match_content = trim ln\<rparr>)
       (filter (\<lambda>(index, ln). includes_str (toLowerCase ln) (toLowerCase term))
          (enumerate 0 (split newline content)))"

text \<open>\<^verbatim>\<open>searchDirectory(dir, term)\<close>: \<open>dir\<close> is the directory's path below the memory bank, \<open>es\<close> its
  listing.\<close>

fun searchDirectory :: "string list \<Rightarrow> entries \<Rightarrow> string \<Rightarrow> match list" where
  "searchDirectory dir [] term = []"
| "searchDirectory dir ((file, Dir sub) # rest) term =
     (if \<not> startsWith file ''.'' then searchDirectory (dir @ [file]) sub term else [])
     @ searchDirectory dir rest term"
| "searchDirectory dir ((file, File c st) # rest) term =
     (if endsWith file ''.md'' then searchInFile (path_relative (dir @ [file])) c term else [])
     @ searchDirectory dir rest term"

definition print_result :: "match \<Rightarrow> string list" where
  "print_result r =
     [icon_page @ '' '' @ match_file r @ '':'' @ show_nat (match_line r),
      ''   '' @ match_content r @ [newline]]"

text \<open>The script: \<open>argv2\<close> is \<^verbatim>\<open>process.argv[2]\<close>, \<open>bank\<close> what \<^verbatim>\<open>memory-bank\<close> names beside the
  \<^verbatim>\<open>scripts\<close> directory.\<close>

definition memory_search :: "node option \<Rightarrow> string option \<Rightarrow> outcome" where
  "memory_search bank argv2 =
     (case argv2 of
        None \<Rightarrow> \<lparr>stdout = [''Usage: npm run memory:search <keyword>''], stderr = [], exit_code = 1\<rparr>
      | Some searchTerm \<Rightarrow>
          if searchTerm = [] then
            \<lparr>stdout = [''Usage: npm run memory:search <keyword>''], stderr = [], exit_code = 1\<rparr>
          else
            let head = [[newline] @ icon_search @ '' Searching for: \"'' @ searchTerm @ ''\"'' @ [newline]]
            in (case readdirSync bank of
                  Inl e \<Rightarrow> uncaught e head
                | Inr es \<Rightarrow>
                    let results = searchDirectory [] es searchTerm
                    in \<lparr>stdout = head @
                          (if length results = 0 then [''No results found.'']
                           else (''Found '' @ show_nat (length results) @ '' matches:'' @ [newline])
                                # concat (map print_result results)),
                        stderr = [], exit_code = 0\<rparr>))"

section \<open>memory-browse.js\<close>

text \<open>\<^verbatim>\<open>browseDirectory(dir, indent)\<close>: the lines it prints.\<close>

fun browseDirectory :: "entries \<Rightarrow> string \<Rightarrow> string list" where
  "browseDirectory [] indent = []"
| "browseDirectory ((file, Dir sub) # rest) indent =
     (indent @ icon_folder @ '' '' @ file @ ''/'')
     # browseDirectory sub (indent @ ''  '') @ browseDirectory rest indent"
| "browseDirectory ((file, File c st) # rest) indent =
     (if endsWith file ''.md'' then [indent @ icon_page @ '' '' @ file] else [])
     @ browseDirectory rest indent"

text \<open>\<^verbatim>\<open>path.join(__dirname, '..', 'memory-bank', category)\<close> is normalised lexically: empty and
  \<^verbatim>\<open>.\<close> components vanish and \<^verbatim>\<open>..\<close> removes the component before it. \<open>acc\<close> holds the components
  below the memory bank; a path that climbs out of the memory bank is outside the model
  (\<^const>\<open>None\<close>).\<close>

fun normalize :: "string list \<Rightarrow> string list \<Rightarrow> string list option" where
  "normalize acc [] = Some acc"
| "normalize acc (c # cs) =
     (if c = [] \<or> c = ''.'' then normalize acc cs
      else if c = ''..'' then (if acc = [] then None else normalize (butlast acc) cs)
      else normalize (acc @ [c]) cs)"

fun lookup_path :: "node option \<Rightarrow> string list \<Rightarrow> node option" where
  "lookup_path n [] = n"
| "lookup_path n (c # cs) =
     (case n of Some (Dir es) \<Rightarrow> lookup_path (map_of es c) cs | _ \<Rightarrow> None)"

text \<open>What \<^verbatim>\<open>categoryPath\<close> names: \<^term>\<open>Some None\<close> when nothing is there (\<^verbatim>\<open>fs.existsSync\<close> is
  false). A path written with a trailing separator names directories only.\<close>

definition category_node :: "node option \<Rightarrow> string \<Rightarrow> node option option" where
  "category_node bank category =
     (case normalize [] (split (CHR ''/'') category) of
        None \<Rightarrow> None
      | Some p \<Rightarrow>
          Some (case lookup_path bank p of
                  Some (File c st) \<Rightarrow> if endsWith category ''/'' then None else Some (File c st)
                | r \<Rightarrow> r))"

text \<open>The script: \<open>argv2\<close> is \<^verbatim>\<open>process.argv[2]\<close>, \<open>bank\<close> what \<^verbatim>\<open>memory-bank\<close> names.\<close>

definition memory_browse :: "node option \<Rightarrow> string option \<Rightarrow> outcome option" where
  "memory_browse bank argv2 =
     (let usage =
        (let out = [''Usage: npm run memory:browse <category>'', [newline] @ ''Available categories:'']
         in (case readdirSync bank of
               Inl e \<Rightarrow> uncaught e out
             | Inr es \<Rightarrow>
                 let categories = map fst (filter (\<lambda>(file, n). isDirectory n) es)
                 in \<lparr>stdout = out @ map (\<lambda>cat. ''  - '' @ cat) categories, stderr = [],
                      exit_code = 1\<rparr>))
      in case argv2 of
           None \<Rightarrow> Some usage
         | Some category \<Rightarrow>
             if category = [] then Some usage
             else (case category_node bank category of
                     None \<Rightarrow> None
                   | Some None \<Rightarrow>
                       Some \<lparr>stdout = [], stderr = [''Category '' @ [CHR 0x27] @ category @ [CHR 0x27] @ '' not found''],
                             exit_code = 1\<rparr>
                   | Some (Some n) \<Rightarrow>
                       let head = [[newline] @ icon_open_folder @ '' Browsing: '' @ category @ [newline]]
                       in (case readdirSync (Some n) of
                             Inl e \<Rightarrow> Some (uncaught e head)
                           | Inr es \<Rightarrow>
                               Some \<lparr>stdout = head @ browseDirectory es []
                                       @ [[newline] @ icon_sparkles @ '' Use memory:search to search within files''],
                                     stderr = [], exit_code = 0\<rparr>)))"

section \<open>memory-update.js\<close>

text \<open>A JavaScript object used as a dictionary is the list of its own properties in the order
  they were created; assigning to an existing key keeps its place. (\<^verbatim>\<open>JSON.stringify\<close> lists
  integer-like keys first, which is a function of this list.)\<close>

fun obj_set :: "'k \<Rightarrow> 'v \<Rightarrow> ('k \<times> 'v) list \<Rightarrow> ('k \<times> 'v) list" where
  "obj_set k v [] = [(k, v)]"
| "obj_set k v (p # ps) = (if fst p = k then (k, v) # ps else p # obj_set k v ps)"

record file_entry =
  fe_category :: string
  fe_size :: nat
  fe_modified :: string
  fe_title :: string
  fe_tags :: "string list"
  fe_summary :: string

text \<open>The \<^verbatim>\<open>index\<close> object. \<open>idx_categories_proto\<close> is the prototype of \<^verbatim>\<open>index.categories\<close> once an
  assignment to the key \<^verbatim>\<open>__proto__\<close> has replaced it by an array (such an assignment creates no
  own property, so the array is not part of the JSON text).\<close>

record index =
  idx_updated :: string
  idx_files :: "(string \<times> file_entry) list"
  idx_categories :: "(string \<times> string list) list"
  idx_tags :: "(string \<times> string list) list"
  idx_categories_proto :: "string list option"

record metadata =
  md_title :: string
  md_tags :: "string list"
  md_summary :: string

text \<open>\<^verbatim>\<open>content.match(/^#\s+(.+)$/m)\<close>. \<open>title_at\<close> is the attempt right after a \<^verbatim>\<open>#\<close> that starts a
  line: \<^verbatim>\<open>\s+\<close> takes the longest run of white space (line breaks included) and the group the
  rest of the line; when the white space runs to the end of the content, \<^verbatim>\<open>\s+\<close> gives back
  characters until the group can start on one that is no line terminator.\<close>

definition title_at :: "string \<Rightarrow> string option" where
  "title_at rest =
     (let ws = takeWhile is_space rest; r = dropWhile is_space rest
      in if ws = [] then None
         else if r \<noteq> [] then Some (takeWhile (\<lambda>c. \<not> is_line_terminator c) r)
         else map_option (takeWhile (\<lambda>c. \<not> is_line_terminator c))
                (find (\<lambda>g. \<not> is_line_terminator (hd g))
                   (map (\<lambda>k. drop k ws) (rev [1..<length ws]))))"

fun find_title :: "bool \<Rightarrow> string \<Rightarrow> string option" where
  "find_title line_start [] = None"
| "find_title line_start (c # cs) =
     (case (if line_start \<and> c = CHR ''#'' then title_at cs else None) of
        Some t \<Rightarrow> Some t
      | None \<Rightarrow> find_title (is_line_terminator c) cs)"

text \<open>\<^verbatim>\<open>content.match(/tags:\s*\[([^\]]+)\]/)\<close>; \<open>tags_at\<close> is the attempt right after \<^verbatim>\<open>tags:\<close>.\<close>

definition tags_at :: "string \<Rightarrow> string option" where
  "tags_at rest =
     (case dropWhile is_space rest of
        [] \<Rightarrow> None
      | c # r \<Rightarrow>
          if c = CHR ''['' \<and> takeWhile (\<lambda>x. x \<noteq> CHR '']'') r \<noteq> [] \<and> dropWhile (\<lambda>x. x \<noteq> CHR '']'') r \<noteq> []
          then Some (takeWhile (\<lambda>x. x \<noteq> CHR '']'') r) else None)"

fun find_tags :: "string \<Rightarrow> string option" where
  "find_tags [] = None"
| "find_tags (c # cs) =
     (case (if prefix ''tags:'' (c # cs) then tags_at (drop 5 (c # cs)) else None) of
        Some g \<Rightarrow> Some g
      | None \<Rightarrow> find_tags cs)"

text \<open>\<^verbatim>\<open>content.match(/^(?!#)([^\n]+)/m)\<close>.\<close>

fun find_summary :: "bool \<Rightarrow> string \<Rightarrow> string option" where
  "find_summary line_start [] = None"
| "find_summary line_start (c # cs) =
     (if line_start \<and> c \<noteq> CHR ''#'' \<and> c \<noteq> newline
      then Some (takeWhile (\<lambda>x. x \<noteq> newline) (c # cs))
      else find_summary (is_line_terminator c) cs)"

definition extractMetadata :: "string \<Rightarrow> metadata" where
  "extractMetadata content =
     \<lparr>md_title = (case find_title True content of Some t \<Rightarrow> t | None \<Rightarrow> []),
      md_tags = (case find_tags content of Some g \<Rightarrow> map trim (split (CHR '','') g) | None \<Rightarrow> []),
      md_summary = (case find_summary True content of Some s \<Rightarrow> s | None \<Rightarrow> [])\<rparr>"

text \<open>Names every object inherits from \<^verbatim>\<open>Object.prototype\<close>: reading one of them from an object
  that has no own property of that name yields a function (or the prototype), never \<^verbatim>\<open>undefined\<close>.\<close>

definition object_prototype_keys :: "string list" where
  "object_prototype_keys =
     [''constructor'', ''__defineGetter__'', ''__defineSetter__'', ''hasOwnProperty'',
      ''__lookupGetter__'', ''__lookupSetter__'', ''isPrototypeOf'', ''propertyIsEnumerable'',
      ''toString'', ''valueOf'', ''__proto__'', ''toLocaleString'']"

text \<open>\<^verbatim>\<open>index.categories[subCategory] = []\<close>.\<close>

definition categories_assign :: "string \<Rightarrow> index \<Rightarrow> index" where
  "categories_assign subCategory idx =
     (if subCategory = ''__proto__'' then idx\<lparr>idx_categories_proto := Some []\<rparr>
      else idx\<lparr>idx_categories := obj_set subCategory [] (idx_categories idx)\<rparr>)"

text \<open>\<^verbatim>\<open>index.categories[category].push(relativePath)\<close>: a \<^verbatim>\<open>TypeError\<close> when the key yields
  nothing that has a \<^verbatim>\<open>push\<close>.\<close>

definition categories_push :: "string \<Rightarrow> string \<Rightarrow> index \<Rightarrow> js_error + index" where
  "categories_push category relativePath idx =
     (case map_of (idx_categories idx) category of
        Some paths \<Rightarrow>
          Inr (idx\<lparr>idx_categories := obj_set category (paths @ [relativePath]) (idx_categories idx)\<rparr>)
      | None \<Rightarrow>
          if category = ''__proto__'' then
            (case idx_categories_proto idx of
               Some paths \<Rightarrow> Inr (idx\<lparr>idx_categories_proto := Some (paths @ [relativePath])\<rparr>)
             | None \<Rightarrow> Inl TypeError)
          else Inl TypeError)"

text \<open>\<^verbatim>\<open>if (!index.tags[tag]) index.tags[tag] = []; index.tags[tag].push(relativePath)\<close>.\<close>

definition tags_push :: "string \<Rightarrow> string \<Rightarrow> index \<Rightarrow> js_error + index" where
  "tags_push tag relativePath idx =
     (case map_of (idx_tags idx) tag of
        Some paths \<Rightarrow> Inr (idx\<lparr>idx_tags := obj_set tag (paths @ [relativePath]) (idx_tags idx)\<rparr>)
      | None \<Rightarrow>
          if tag \<in> set object_prototype_keys then Inl TypeError
          else Inr (idx\<lparr>idx_tags := obj_set tag [relativePath] (idx_tags idx)\<rparr>))"

fun index_tags :: "string list \<Rightarrow> string \<Rightarrow> index \<Rightarrow> js_error + index" where
  "index_tags [] relativePath idx = Inr idx"
| "index_tags (tag # others) relativePath idx =
     (case tags_push tag relativePath idx of
        Inl e \<Rightarrow> Inl e
      | Inr idx' \<Rightarrow> index_tags others relativePath idx')"

text \<open>The entry stored for one Markdown file.\<close>

definition file_entry_of :: "string \<Rightarrow> string \<Rightarrow> stat \<Rightarrow> string \<Rightarrow> file_entry" where
  "file_entry_of file content st category =
     (let metadata = extractMetadata content
      in \<lparr>fe_category = category,
          fe_size = st_size st,
          fe_modified = st_mtime st,
          fe_title = (if md_title metadata \<noteq> [] then md_title metadata
                      else replace_first ''.md'' [] file),
          fe_tags = md_tags metadata,
          fe_summary = (if md_summary metadata \<noteq> [] then md_summary metadata
                        else newlines_to_spaces (take 200 content))\<rparr>)"

text \<open>The body of the \<^verbatim>\<open>else if (file.endsWith('.md'))\<close> branch for a regular file.\<close>

definition index_file ::
  "string list \<Rightarrow> string \<Rightarrow> string \<Rightarrow> stat \<Rightarrow> string \<Rightarrow> index \<Rightarrow> js_error + index" where
  "index_file dir file content st category idx =
     (let relativePath = path_relative (dir @ [file]);
          idx1 = idx\<lparr>idx_files := obj_set relativePath (file_entry_of file content st category) (idx_files idx)\<rparr>
      in case (if category \<noteq> [] then categories_push category relativePath idx1 else Inr idx1) of
           Inl e \<Rightarrow> Inl e
         | Inr idx2 \<Rightarrow> index_tags (md_tags (extractMetadata content)) relativePath idx2)"

text \<open>\<^verbatim>\<open>const subCategory = category ? `${category}/${file}` : file\<close>.\<close>

definition subCategory :: "string \<Rightarrow> string \<Rightarrow> string" where
  "subCategory category file = (if category \<noteq> [] then category @ ''/'' @ file else file)"

text \<open>\<^verbatim>\<open>indexDirectory(dir, category)\<close>: \<open>dir\<close> is the directory's path below the memory bank, \<open>es\<close>
  its listing, \<open>idx\<close> the global \<^verbatim>\<open>index\<close> before the call. Reading a directory whose name ends in
  \<^verbatim>\<open>.md\<close> as a file throws \<^verbatim>\<open>EISDIR\<close>.\<close>

fun indexDirectory :: "string list \<Rightarrow> entries \<Rightarrow> string \<Rightarrow> index \<Rightarrow> js_error + index" where
  "indexDirectory dir [] category idx = Inr idx"
| "indexDirectory dir ((file, Dir sub) # rest) category idx =
     (if \<not> startsWith file ''.'' then
        (case indexDirectory (dir @ [file]) sub (subCategory category file)
                (categories_assign (subCategory category file) idx) of
           Inl e \<Rightarrow> Inl e
         | Inr idx' \<Rightarrow> indexDirectory dir rest category idx')
      else if endsWith file ''.md'' then Inl EISDIR
      else indexDirectory dir rest category idx)"
| "indexDirectory dir ((file, File content st) # rest) category idx =
     (if endsWith file ''.md'' then
        (case index_file dir file content st category idx of
           Inl e \<Rightarrow> Inl e
         | Inr idx' \<Rightarrow> indexDirectory dir rest category idx')
      else indexDirectory dir rest category idx)"

definition empty_index :: "string \<Rightarrow> index" where
  "empty_index now =
     \<lparr>idx_updated = now, idx_files = [], idx_categories = [], idx_tags = [],
      idx_categories_proto = None\<rparr>"

text \<open>The index the script builds of the memory bank with listing \<open>es\<close> when started at time \<open>now\<close>.\<close>

definition build_index :: "string \<Rightarrow> entries \<Rightarrow> js_error + index" where
  "build_index now es = indexDirectory [] es [] (empty_index now)"

text \<open>The script. \<open>stringify\<close> is \<^verbatim>\<open>JSON.stringify(index, null, 2)\<close>, \<open>shown\<close> the text of
  \<^verbatim>\<open>path.relative(process.cwd(), indexPath)\<close>, \<open>now\<close> the time of the run, \<open>bank\<close> what
  \<^verbatim>\<open>memory-bank\<close> names. The result is the memory bank after the run and what the process leaves.\<close>

definition update_messages :: "string \<Rightarrow> index \<Rightarrow> string list" where
  "update_messages shown idx =
     [icon_check @ '' Indexed '' @ show_nat (length (idx_files idx)) @ '' files'',
      icon_open_folder @ '' Found '' @ show_nat (length (idx_categories idx)) @ '' categories'',
      icon_label @ ''  Found '' @ show_nat (length (idx_tags idx)) @ '' unique tags'',
      [newline] @ icon_disk @ '' Index saved to '' @ shown,
      [newline] @ icon_sparkles @ '' Memory Bank index updated successfully!'']"

definition memory_update ::
  "(index \<Rightarrow> string) \<Rightarrow> string \<Rightarrow> string \<Rightarrow> node option \<Rightarrow> node option \<times> outcome" where
  "memory_update stringify shown now bank =
     (let head = [[newline] @ icon_arrows @ '' Updating Memory Bank Index...'' @ [newline]]
      in case readdirSync bank of
           Inl e \<Rightarrow> (bank, uncaught e head)
         | Inr es \<Rightarrow>
             (case build_index now es of
                Inl e \<Rightarrow> (bank, uncaught e head)
              | Inr idx \<Rightarrow>
                  (case writeFileSync es ''.index.json'' (stringify idx) now of
                     Inl e \<Rightarrow> (bank, uncaught e head)
                   | Inr es' \<Rightarrow>
                       (Some (Dir es'),
                        \<lparr>stdout = head @ update_messages shown idx, stderr = [],
                          exit_code = 0\<rparr>))))"

section \<open>init-memory-bank.js\<close>

text \<open>\<^verbatim>\<open>escapeRegExp\<close>: a backslash in front of each of \<^verbatim>\<open>. * + ? ^ $ { } ( ) | [ ] \\<close>.\<close>

definition backslash :: char where
  "backslash = CHR 0x5C"

definition regexp_syntax_chars :: "char list" where
  "regexp_syntax_chars = ''.*+?^${}()|[]'' @ [backslash]"

definition escapeRegExp :: "string \<Rightarrow> string" where
  "escapeRegExp s =
     concat (map (\<lambda>c. if c \<in> set regexp_syntax_chars then [backslash, c] else [c]) s)"

text \<open>\<^verbatim>\<open>new RegExp(pattern, 'g')\<close> for a pattern made of ordinary characters and of escaped syntax
  characters only: such a pattern matches one fixed string, which is returned. Any other construct
  gives \<^const>\<open>None\<close> (not modelled).\<close>

fun regexp_literal :: "string \<Rightarrow> string option" where
  "regexp_literal [] = Some []"
| "regexp_literal [c] = (if c \<in> set regexp_syntax_chars then None else Some [c])"
| "regexp_literal (c # d # cs) =
     (if c = backslash then
        (if d \<in> set regexp_syntax_chars then map_option ((#) d) (regexp_literal cs) else None)
      else if c \<in> set regexp_syntax_chars then None
      else map_option ((#) c) (regexp_literal (d # cs)))"

text \<open>The replacement text of one match (\<^verbatim>\<open>GetSubstitution\<close> for a pattern without groups):
  \<^verbatim>\<open>$$\<close> is a dollar sign, \<^verbatim>\<open>$&\<close> the match, \<^verbatim>\<open>$`\<close> the text before it, \<^verbatim>\<open>$'\<close> the text after it.\<close>

fun substitution :: "string \<Rightarrow> string \<Rightarrow> string \<Rightarrow> string \<Rightarrow> string" where
  "substitution [] matched passed following = []"
| "substitution [c] matched passed following = [c]"
| "substitution (c # d # r) matched passed following =
     (if c = CHR ''$'' \<and> d = CHR ''$'' then CHR ''$'' # substitution r matched passed following
      else if c = CHR ''$'' \<and> d = CHR ''&'' then matched @ substitution r matched passed following
      else if c = CHR ''$'' \<and> d = CHR 0x60 then passed @ substitution r matched passed following
      else if c = CHR ''$'' \<and> d = CHR 0x27 then following @ substitution r matched passed following
      else c # substitution (d # r) matched passed following)"

text \<open>\<^verbatim>\<open>content.replace(re, value)\<close> for a global \<open>re\<close> that matches the fixed string \<open>lit\<close>: matches are
  taken from left to right and do not overlap. \<open>passed\<close> is the part of the content already
  passed.\<close>

function replace_all :: "string \<Rightarrow> string \<Rightarrow> string \<Rightarrow> string \<Rightarrow> string" where
  "replace_all lit value passed [] = (if lit = [] then substitution value [] passed [] else [])"
| "replace_all lit value passed (c # cs) =
     (if lit = [] then
        substitution value [] passed (c # cs) @ c # replace_all lit value (passed @ [c]) cs
      else if prefix lit (c # cs) then
        substitution value lit passed (drop (length lit) (c # cs))
        @ replace_all lit value (passed @ lit) (drop (length lit) (c # cs))
      else c # replace_all lit value (passed @ [c]) cs)"
  by pat_completeness auto
termination
  by (relation "measure (\<lambda>(lit, value, passed, rest). length rest)") auto

text \<open>\<^verbatim>\<open>content.replace(new RegExp(escapeRegExp(placeholder), 'g'), value)\<close>.\<close>

definition replace_placeholder :: "string \<Rightarrow> string \<Rightarrow> string \<Rightarrow> string" where
  "replace_placeholder placeholder value content =
     (case regexp_literal (escapeRegExp placeholder) of
        Some lit \<Rightarrow> replace_all lit value [] content
      | None \<Rightarrow> content)"

text \<open>The \<^verbatim>\<open>forEach\<close> over \<^verbatim>\<open>Object.entries(replacements)\<close>, in the order of the entries.\<close>

fun replace_placeholders :: "(string \<times> string) list \<Rightarrow> string \<Rightarrow> string" where
  "replace_placeholders [] content = content"
| "replace_placeholders ((placeholder, value) # rest) content =
     replace_placeholders rest (replace_placeholder placeholder value content)"

text \<open>\<^verbatim>\<open>replaceInDirectory(dir, replacements)\<close>: the listing of \<open>dir\<close> afterwards.\<close>

fun replaceInDirectory :: "entries \<Rightarrow> (string \<times> string) list \<Rightarrow> string \<Rightarrow> entries" where
  "replaceInDirectory [] replacements now = []"
| "replaceInDirectory ((file, Dir sub) # rest) replacements now =
     (file, Dir (replaceInDirectory sub replacements now)) # replaceInDirectory rest replacements now"
| "replaceInDirectory ((file, File content st) # rest) replacements now =
     (if endsWith file ''.md'' \<or> endsWith file ''.json''
      then (file, written (replace_placeholders replacements content) now)
      else (file, File content st))
     # replaceInDirectory rest replacements now"

text \<open>\<^verbatim>\<open>fs.mkdirSync(dest, { recursive: true })\<close>: the listing of \<open>dest\<close> afterwards.\<close>

definition mkdirSync_recursive :: "node option \<Rightarrow> js_error + entries" where
  "mkdirSync_recursive dest =
     (case dest of None \<Rightarrow> Inr [] | Some (Dir es) \<Rightarrow> Inr es | Some (File c st) \<Rightarrow> Inl EEXIST)"

text \<open>\<^verbatim>\<open>copyDirectory(src, dest)\<close>: \<open>src\<close> is the listing of the source, \<open>dest\<close> what the destination
  path names; the result is the listing of the destination afterwards. \<open>copy_entries\<close> is the
  \<^verbatim>\<open>for\<close> loop. \<^verbatim>\<open>fs.copyFileSync\<close> replaces a file and refuses a directory.\<close>

fun copyDirectory :: "entries \<Rightarrow> node option \<Rightarrow> string \<Rightarrow> js_error + entries"
  and copy_entries :: "entries \<Rightarrow> entries \<Rightarrow> string \<Rightarrow> js_error + entries" where
  "copyDirectory src dest now =
     (case mkdirSync_recursive dest of
        Inl e \<Rightarrow> Inl e
      | Inr d \<Rightarrow> copy_entries src d now)"
| "copy_entries [] d now = Inr d"
| "copy_entries ((name, Dir sub) # rest) d now =
     (case copyDirectory sub (map_of d name) now of
        Inl e \<Rightarrow> Inl e
      | Inr sub' \<Rightarrow> copy_entries rest (put_entry name (Dir sub') d) now)"
| "copy_entries ((name, File content st) # rest) d now =
     (case map_of d name of
        Some (Dir x) \<Rightarrow> Inl EISDIR
      | _ \<Rightarrow> copy_entries rest (put_entry name (File content (st\<lparr>st_mtime := now\<rparr>)) d) now)"

text \<open>What the run takes from outside the file system: \<open>env_date\<close> is
  \<^verbatim>\<open>new Date().toISOString().split('T')[0]\<close>, \<open>env_now\<close> the time given to the files it writes,
  \<open>env_searchScript\<close> the text of the template literal \<^verbatim>\<open>searchScript\<close>, and \<open>env_package_scripts\<close> the
  text \<^verbatim>\<open>JSON.stringify\<close> gives after \<^verbatim>\<open>JSON.parse\<close> and \<^verbatim>\<open>Object.assign\<close> added the four scripts
  to the content of \<^verbatim>\<open>package.json\<close> (or the exception they throw).\<close>

record env =
  env_date :: string
  env_now :: string
  env_searchScript :: string
  env_package_scripts :: "string \<Rightarrow> js_error + string"

definition questions :: "string list" where
  "questions =
     [''Project name: '',
      ''Project description: '',
      ''Architecture type (e.g., monolith, microservices, modular-monolith): '',
      ''Primary framework (e.g., Next.js, Express, FastAPI): '',
      ''Primary language (e.g., TypeScript, Python, Go): '']"

definition overwrite_question :: string where
  "overwrite_question =
     [newline] @ icon_warning @ ''  memory-bank directory already exists. Overwrite? (y/N): ''"

definition banner :: string where
  "banner = icon_rocket @ '' Memory Bank Initialization'' @ [newline]"

text \<open>The object \<^verbatim>\<open>replacements\<close>, as \<^verbatim>\<open>Object.entries\<close> lists it.\<close>

definition replacements ::
  "string \<Rightarrow> string \<Rightarrow> string \<Rightarrow> string \<Rightarrow> string \<Rightarrow> string \<Rightarrow> (string \<times> string) list" where
  "replacements projectName projectDescription architecture framework language date =
     [(''[PROJECT_NAME]'', projectName),
      (''[PROJECT_DESCRIPTION]'', projectDescription),
      (''[Your Architecture Type]'', architecture),
      (''[Your architecture type]'', toLowerCase architecture),
      (''[Your framework]'', framework),
      (''[Primary language]'', language),
      (''[DATE]'', date),
      (''[YYYY-MM-DD]'', date),
      (''[PORT]'', ''3000''),
      (''[YOUR_DOMAIN]'', ''api.example.com'')]"

definition activeContext :: "string \<Rightarrow> string \<Rightarrow> string \<Rightarrow> string \<Rightarrow> string" where
  "activeContext date architecture framework language = join_with [newline]
     [''# Active Development Context'',
      [],
      ''## Current Sprint'',
      ''- Sprint: 1'',
      ''- Start Date: '' @ date,
      ''- Focus: Initial setup and foundation'',
      [],
      ''## Current Tasks'',
      ''- Set up development environment'',
      ''- Define initial architecture'',
      ''- Create basic project structure'',
      [],
      ''## Recent Decisions'',
      ''- Chose '' @ architecture @ '' architecture'',
      ''- Selected '' @ framework @ '' as primary framework'',
      ''- Using '' @ language @ '' as primary language'',
      [],
      ''## Notes'',
      ''- Project initialized on '' @ date,
      ''- See projectBrief.md for full project details'',
      [],
      ''---'',
      [],
      ''*Last Updated: '' @ date @ ''*'']"

text \<open>\<^verbatim>\<open>fs.writeFileSync(path.join(targetDir, 'context', 'active.md'), activeContext)\<close> on the
  listing \<open>bank\<close> of \<^verbatim>\<open>targetDir\<close>.\<close>

definition write_active_context :: "entries \<Rightarrow> string \<Rightarrow> string \<Rightarrow> js_error + entries" where
  "write_active_context bank text now =
     (case map_of bank ''context'' of
        None \<Rightarrow> Inl ENOENT
      | Some (File c st) \<Rightarrow> Inl ENOTDIR
      | Some (Dir ctx) \<Rightarrow>
          (case writeFileSync ctx ''active.md'' text now of
             Inl e \<Rightarrow> Inl e
           | Inr ctx' \<Rightarrow> Inr (put_entry ''context'' (Dir ctx') bank)))"

text \<open>The \<^verbatim>\<open>package.json\<close> step on the listing \<open>fs\<close> of \<^verbatim>\<open>__dirname\<close>.\<close>

definition update_package_json :: "env \<Rightarrow> entries \<Rightarrow> js_error + entries" where
  "update_package_json env fs =
     (case map_of fs ''package.json'' of
        None \<Rightarrow> Inr fs
      | Some (Dir sub) \<Rightarrow> Inl EISDIR
      | Some (File c st) \<Rightarrow>
          (case env_package_scripts env c of
             Inl e \<Rightarrow> Inl e
           | Inr c' \<Rightarrow> writeFileSync fs ''package.json'' c' (env_now env)))"

text \<open>The \<^verbatim>\<open>scripts\<close> directory is created when nothing of that name exists; then
  \<^verbatim>\<open>memory-search.js\<close> is written into it (the mode set by \<^verbatim>\<open>chmodSync\<close> is not modelled).\<close>

definition write_search_script :: "env \<Rightarrow> entries \<Rightarrow> js_error + entries" where
  "write_search_script env fs =
     (case (case map_of fs ''scripts'' of
              None \<Rightarrow> Inr []
            | Some (Dir sc) \<Rightarrow> Inr sc
            | Some (File c st) \<Rightarrow> Inl ENOTDIR) of
        Inl e \<Rightarrow> Inl e
      | Inr sc \<Rightarrow>
          (case writeFileSync sc ''memory-search.js'' (env_searchScript env) (env_now env) of
             Inl e \<Rightarrow> Inl e
           | Inr sc' \<Rightarrow> Inr (put_entry ''scripts'' (Dir sc') fs)))"

definition success_messages :: "string list" where
  "success_messages =
     [[newline] @ icon_check @ '' Memory Bank initialized successfully!'',
      [newline] @ ''Next steps:'',
      ''1. Review and update /memory-bank/projectBrief.md'',
      ''2. Add your architecture decisions to /memory-bank/architecture/decisions/'',
      ''3. Document your API endpoints in /memory-bank/api/'',
      ''4. Run `npm run memory:search <keyword>` to search the Memory Bank'']"

text \<open>Lines 42 to 189 of \<^verbatim>\<open>initMemoryBank\<close>, run on the listing \<open>fs\<close> of \<^verbatim>\<open>__dirname\<close> once the target
  directory is known to be absent: the listing afterwards, or the exception that ends the run
  (the file system is then left as the failing step found it, which is not modelled).\<close>

definition scaffold ::
  "env \<Rightarrow> entries \<Rightarrow> string \<Rightarrow> string \<Rightarrow> string \<Rightarrow> string \<Rightarrow> string \<Rightarrow> js_error + entries" where
  "scaffold env fs projectName projectDescription architecture framework language =
     (case readdirSync (map_of fs ''memory-bank-template'') of
        Inl e \<Rightarrow> Inl e
      | Inr template \<Rightarrow>
          (case copyDirectory template (map_of fs ''memory-bank'') (env_now env) of
             Inl e \<Rightarrow> Inl e
           | Inr copied \<Rightarrow>
               (case write_active_context
                       (replaceInDirectory copied
                          (replacements projectName projectDescription architecture framework
                             language (env_date env))
                          (env_now env))
                       (activeContext (env_date env) architecture framework language)
                       (env_now env) of
                  Inl e \<Rightarrow> Inl e
                | Inr bank \<Rightarrow>
                    (case update_package_json env (put_entry ''memory-bank'' (Dir bank) fs) of
                       Inl e \<Rightarrow> Inl e
                     | Inr fs' \<Rightarrow> write_search_script env fs'))))"

text \<open>\<^verbatim>\<open>fs.rmSync(targetDir, { recursive: true, force: true })\<close>.\<close>

definition rmSync :: "string \<Rightarrow> entries \<Rightarrow> entries" where
  "rmSync name fs = filter (\<lambda>e. fst e \<noteq> name) fs"

text \<open>\<^verbatim>\<open>initMemoryBank\<close>, run on the listing \<open>fs\<close> of \<^verbatim>\<open>__dirname\<close>; \<open>answers\<close> are the lines the user
  types, one for each question asked. The result is the listing afterwards and what the process
  leaves. The script never calls \<^verbatim>\<open>process.exit\<close>: it returns after \<^verbatim>\<open>rl.close()\<close>, so the process
  ends with exit code 0; a question that gets no answer is never resolved and the process ends,
  again with code 0, when its input closes. An exception is handed to \<^verbatim>\<open>console.error\<close> by
  \<^verbatim>\<open>.catch\<close>, which leaves the exit code at 0 as well.\<close>

definition initMemoryBank :: "env \<Rightarrow> entries \<Rightarrow> string list \<Rightarrow> js_error + entries \<times> outcome" where
  "initMemoryBank env fs answers =
     (case answers of
        projectName # projectDescription # architecture # framework # language # others \<Rightarrow>
          (if map_of fs ''memory-bank'' \<noteq> None then
             (case others of
                [] \<Rightarrow>
                  Inr (fs, \<lparr>stdout = banner # questions @ [overwrite_question], stderr = [],
                            exit_code = 0\<rparr>)
              | overwrite # unread \<Rightarrow>
                  if toLowerCase overwrite \<noteq> ''y'' then
                    Inr (fs, \<lparr>stdout = banner # questions @ [overwrite_question, ''Initialization cancelled.''],
                              stderr = [], exit_code = 0\<rparr>)
                  else
                    (case scaffold env (rmSync ''memory-bank'' fs) projectName projectDescription
                            architecture framework language of
                       Inl e \<Rightarrow> Inl e
                     | Inr fs' \<Rightarrow>
                         Inr (fs', \<lparr>stdout = banner # questions @ [overwrite_question] @ success_messages,
                                    stderr = [], exit_code = 0\<rparr>)))
           else
             (case scaffold env fs projectName projectDescription architecture framework language of
                Inl e \<Rightarrow> Inl e
              | Inr fs' \<Rightarrow>
                  Inr (fs', \<lparr>stdout = banner # questions @ success_messages, stderr = [],
                             exit_code = 0\<rparr>)))
      | _ \<Rightarrow>
          Inr (fs, \<lparr>stdout = banner # take (Suc (length answers)) questions, stderr = [],
                    exit_code = 0\<rparr>))"

section \<open>Notions used to state the properties\<close>

text \<open>The Markdown files the traversals of the search and of the indexer reach from a directory
  with path \<open>dir\<close> and listing \<open>es\<close>: the regular files whose name ends in \<^verbatim>\<open>.md\<close> and that do not lie
  below a directory whose name begins with a dot. Each comes with the components of its path, its
  content and its \<^verbatim>\<open>stat\<close>.\<close>

fun markdown_files :: "string list \<Rightarrow> entries \<Rightarrow> (string list \<times> string \<times> stat) list" where
  "markdown_files dir [] = []"
| "markdown_files dir ((file, Dir sub) # rest) =
     (if startsWith file ''.'' then [] else markdown_files (dir @ [file]) sub)
     @ markdown_files dir rest"
| "markdown_files dir ((file, File content st) # rest) =
     (if endsWith file ''.md'' then [(dir @ [file], content, st)] else [])
     @ markdown_files dir rest"

text \<open>A listing without its hidden directories: every directory whose name begins with a dot is
  removed with all it holds, at every depth.\<close>

fun without_hidden :: "entries \<Rightarrow> entries" where
  "without_hidden [] = []"
| "without_hidden ((file, Dir sub) # rest) =
     (if startsWith file ''.'' then [] else [(file, Dir (without_hidden sub))])
     @ without_hidden rest"
| "without_hidden ((file, File content st) # rest) =
     (file, File content st) # without_hidden rest"

text \<open>Every part of a content that follows a line terminator, and the texts that start a line:
  the content itself and each such part, cut at its first line feed.\<close>

fun line_tails :: "string \<Rightarrow> string list" where
  "line_tails [] = []"
| "line_tails (c # cs) = (if is_line_terminator c then [cs] else []) @ line_tails cs"

definition line_texts :: "string \<Rightarrow> string list" where
  "line_texts content = map (takeWhile (\<lambda>c. c \<noteq> newline)) (content # line_tails content)"

text \<open>The first line text that is not empty and does not begin with \<^verbatim>\<open>#\<close>.\<close>

definition first_plain_line :: "string \<Rightarrow> string option" where
  "first_plain_line content = find (\<lambda>l. l \<noteq> [] \<and> hd l \<noteq> CHR ''#'') (line_texts content)"

text \<open>The relative paths of the entries of one directory that the indexer reads as Markdown
  files, and the table of all directories the indexer enters below \<open>dir\<close>, in the order it enters
  them: the relative path of each with the Markdown files directly inside it.\<close>

definition direct_markdown :: "string list \<Rightarrow> entries \<Rightarrow> string list" where
  "direct_markdown dir es =
     map (\<lambda>(file, n). path_relative (dir @ [file]))
       (filter (\<lambda>(file, n). \<not> isDirectory n \<and> endsWith file ''.md'') es)"

fun category_table :: "string list \<Rightarrow> entries \<Rightarrow> (string \<times> string list) list" where
  "category_table dir [] = []"
| "category_table dir ((file, Dir sub) # rest) =
     (if startsWith file ''.'' then []
      else (path_relative (dir @ [file]), direct_markdown (dir @ [file]) sub)
           # category_table (dir @ [file]) sub)
     @ category_table dir rest"
| "category_table dir ((file, File content st) # rest) = category_table dir rest"

text \<open>All regular files below a directory, hidden or not, with the components of their paths and
  their contents.\<close>

fun files_of :: "string list \<Rightarrow> entries \<Rightarrow> (string list \<times> string) list" where
  "files_of dir [] = []"
| "files_of dir ((file, Dir sub) # rest) = files_of (dir @ [file]) sub @ files_of dir rest"
| "files_of dir ((file, File content st) # rest) = (dir @ [file], content) # files_of dir rest"

text \<open>An entry \<open>ke\<close> of \<^verbatim>\<open>index.files\<close> that stems from a Markdown file reached below \<open>dir\<close>: its key is
  the relative path of the file and its value the entry computed from the file; a file directly
  in \<open>dir\<close> has the category \<open>category\<close>.\<close>

definition from_file :: "string list \<Rightarrow> entries \<Rightarrow> string \<Rightarrow> string \<times> file_entry \<Rightarrow> bool" where
  "from_file dir es category ke =
     (\<exists>p c st cat. (p, c, st) \<in> set (markdown_files dir es) \<and> fst ke = path_relative p
           \<and> snd ke = file_entry_of (last p) c st cat
           \<and> (length p = Suc (length dir) \<longrightarrow> cat = category))"

text \<open>All paths listed under some key of \<^verbatim>\<open>index.categories\<close>.\<close>

definition category_paths :: "index \<Rightarrow> string set" where
  "category_paths idx = (\<Union>kp \<in> set (idx_categories idx). set (snd kp))"

text \<open>The result of an indexing run with the time stamp of the index set to \<open>u\<close>.\<close>

abbreviation at_time :: "string \<Rightarrow> js_error + index \<Rightarrow> js_error + index" where
  "at_time u r \<equiv> map_sum id (idx_updated_update (\<lambda>_. u)) r"

text \<open>\<open>push_to k ps cats\<close>: the pushes of the paths \<open>ps\<close> onto the list under the key \<open>k\<close>, when \<open>cats\<close>
  has that key. \<open>listed t\<close>: a table without the key \<^verbatim>\<open>__proto__\<close>, which never becomes an own
  property of \<^verbatim>\<open>index.categories\<close>.\<close>

definition push_to :: "string \<Rightarrow> string list \<Rightarrow> (string \<times> string list) list \<Rightarrow> (string \<times> string list) list" where
  "push_to k ps cats = (case map_of cats k of Some v \<Rightarrow> obj_set k (v @ ps) cats | None \<Rightarrow> cats)"

abbreviation listed :: "(string \<times> string list) list \<Rightarrow> (string \<times> string list) list" where
  "listed t \<equiv> filter (\<lambda>kp. fst kp \<noteq> ''__proto__'') t"

text \<open>\<open>content'\<close> is \<open>content\<close> with every occurrence of \<open>token\<close> replaced by \<open>value\<close>: the content
  is a chain of parts free of the token with the token between them, \<open>content'\<close> is the same
  parts with \<open>value\<close> between them, and \<open>content'\<close> holds no occurrence of the token.\<close>

definition replaced_everywhere :: "string \<Rightarrow> string \<Rightarrow> string \<Rightarrow> string \<Rightarrow> bool" where
  "replaced_everywhere token value content content' =
     (\<not> sublist token content'
      \<and> (\<exists>gaps. content = join_with token gaps \<and> content' = join_with value gaps
                 \<and> (\<forall>g \<in> set gaps. \<not> sublist token g)))"

text \<open>A value that cannot bring an occurrence of \<open>token\<close> into a text that has none, when it
  replaces parts of that text: it is not empty, has no \<^verbatim>\<open>$\<close> (so that it is inserted as it
  stands), holds neither the first nor the last character of the token, and is not itself a part
  of the token.\<close>

definition foreign_to :: "string \<Rightarrow> string \<Rightarrow> bool" where
  "foreign_to token v =
     (v \<noteq> [] \<and> CHR ''$'' \<notin> set v \<and> hd token \<notin> set v \<and> last token \<notin> set v \<and> \<not> sublist v token)"

text \<open>The content of the regular file at a path below a directory with listing \<open>es\<close>.\<close>

fun file_at :: "string list \<Rightarrow> entries \<Rightarrow> string option" where
  "file_at [] es = None"
| "file_at [n] es = (case map_of es n of Some (File content st) \<Rightarrow> Some content | _ \<Rightarrow> None)"
| "file_at (n # m # ns) es = (case map_of es n of Some (Dir sub) \<Rightarrow> file_at (m # ns) sub | _ \<Rightarrow> None)"

section \<open>Facts about strings\<close>

lemma lower_char_y: "lower_char c = CHR ''y'' \<longleftrightarrow> c = CHR ''y'' \<or> c = CHR ''Y''"
proof
  assume a: "lower_char c = CHR ''y''"
  show "c = CHR ''y'' \<or> c = CHR ''Y''"
  proof (cases "(65 \<le> (of_char c :: nat) \<and> (of_char c :: nat) \<le> 90)
      \<or> (192 \<le> (of_char c :: nat) \<and> (of_char c :: nat) \<le> 222 \<and> (of_char c :: nat) \<noteq> 215)")
    case True
    with a have "char_of ((of_char c :: nat) + 32) = CHR ''y''"
      by (simp add: lower_char_def Let_def)
    then have "(of_char (char_of ((of_char c :: nat) + 32) :: char) :: nat) = of_char (CHR ''y'')"
      by simp
    then have "((of_char c :: nat) + 32) mod 256 = 121" by simp
    with True have "(of_char c :: nat) = 89" by auto
    then have "char_of (of_char c :: nat) = (char_of (89::nat) :: char)" by simp
    moreover have "(char_of (89::nat) :: char) = CHR ''Y''" by code_simp
    ultimately show ?thesis by simp
  next
    case False
    with a show ?thesis by (simp add: lower_char_def Let_def)
  qed
next
  have "lower_char (CHR ''y'') = CHR ''y''" "lower_char (CHR ''Y'') = CHR ''y''" by code_simp+
  moreover assume "c = CHR ''y'' \<or> c = CHR ''Y''"
  ultimately show "lower_char c = CHR ''y''" by auto
qed

lemma toLowerCase_y: "toLowerCase s = ''y'' \<longleftrightarrow> s = ''y'' \<or> s = ''Y''"
  by (cases s) (auto simp: toLowerCase_def lower_char_y)

lemma split_no_separator: "d \<notin> set s \<Longrightarrow> split d s = [s]"
  by (induction s) auto

section \<open>The scaffolder declines to overwrite\<close>

text \<open>
  C1 (as the code has it). When \<^verbatim>\<open>memory-bank\<close> exists and the answer to the overwrite question
  is neither \<^verbatim>\<open>y\<close> nor \<^verbatim>\<open>Y\<close>, the run changes nothing in the file system, prints
  \<^verbatim>\<open>Initialization cancelled.\<close> and returns: the process ends with exit code 0.
\<close>

theorem initMemoryBank_declined:
  assumes "map_of fs ''memory-bank'' = Some n"
    and "overwrite \<noteq> ''y''" and "overwrite \<noteq> ''Y''"
  shows "initMemoryBank env fs
           (projectName # projectDescription # architecture # framework # language # overwrite # unread)
         = Inr (fs, \<lparr>stdout = banner # questions @ [overwrite_question, ''Initialization cancelled.''],
                     stderr = [], exit_code = 0\<rparr>)"
  using assms by (simp add: initMemoryBank_def toLowerCase_y)

theorem initMemoryBank_declined_witness:
  "initMemoryBank
     \<lparr>env_date = ''2026-01-01'', env_now = ''t'', env_searchScript = ''s'', env_package_scripts = Inr\<rparr>
     [(''memory-bank'', Dir [(''a.md'', File ''x'' \<lparr>st_size = 1, st_mtime = ''t0''\<rparr>)])]
     [''P'', ''D'', ''monolith'', ''Express'', ''Go'', ''no'']
   = Inr ([(''memory-bank'', Dir [(''a.md'', File ''x'' \<lparr>st_size = 1, st_mtime = ''t0''\<rparr>)])],
          \<lparr>stdout = banner # questions @ [overwrite_question, ''Initialization cancelled.''],
            stderr = [], exit_code = 0\<rparr>)"
  using initMemoryBank_declined
    [of "[(''memory-bank'', Dir [(''a.md'', File ''x'' \<lparr>st_size = 1, st_mtime = ''t0''\<rparr>)])]"
      "Dir [(''a.md'', File ''x'' \<lparr>st_size = 1, st_mtime = ''t0''\<rparr>)]" "''no''"]
  by simp

text \<open>The specification asks for a nonzero exit code; with the answer \<^verbatim>\<open>n\<close> the code is 0.\<close>

theorem declined_exit_code_counterexample:
  "map_sum id (exit_code \<circ> snd)
     (initMemoryBank
        \<lparr>env_date = ''2026-01-01'', env_now = ''t'', env_searchScript = ''s'', env_package_scripts = Inr\<rparr>
        [(''memory-bank'', Dir [])] [''P'', ''D'', ''monolith'', ''Express'', ''Go'', ''n''])
   = Inr 0"
  by (simp add: initMemoryBank_def toLowerCase_def lower_char_def)

section \<open>Scenario A of the indexer\<close>

text \<open>
  C2 (as the code has it). For a memory bank that holds the one file \<^verbatim>\<open>a.md\<close> with the three
  lines \<^verbatim>\<open># Hello\<close>, \<^verbatim>\<open>tags: [x, y]\<close> and \<^verbatim>\<open>Some summary text.\<close>, the index has one entry, for
  \<^verbatim>\<open>a.md\<close>, with title \<^verbatim>\<open>Hello\<close>, tags \<^verbatim>\<open>x\<close> and \<^verbatim>\<open>y\<close>, and the summary \<^verbatim>\<open>tags: [x, y]\<close>: the first
  line that is not empty and does not begin with \<^verbatim>\<open>#\<close> is the tags line.
\<close>

theorem index_scenario_a:
  "build_index now
     [(''a.md'', File (''# Hello'' @ [newline] @ ''tags: [x, y]'' @ [newline] @ ''Some summary text.'') st)]
   = Inr \<lparr>idx_updated = now,
           idx_files = [(''a.md'', \<lparr>fe_category = [], fe_size = st_size st, fe_modified = st_mtime st,
                          fe_title = ''Hello'', fe_tags = [''x'', ''y''], fe_summary = ''tags: [x, y]''\<rparr>)],
           idx_categories = [],
           idx_tags = [(''x'', [''a.md'']), (''y'', [''a.md''])],
           idx_categories_proto = None\<rparr>"
  by code_simp

text \<open>The summary Scenario A of the specification names is not the one stored.\<close>

theorem scenario_a_summary_counterexample:
  "fe_summary
     (file_entry_of ''a.md''
        (''# Hello'' @ [newline] @ ''tags: [x, y]'' @ [newline] @ ''Some summary text.'')
        \<lparr>st_size = 45, st_mtime = ''t''\<rparr> [])
   \<noteq> ''Some summary text.''"
  by code_simp

section \<open>Browsing a category that does not exist\<close>

text \<open>
  C3 (as the code has it). When the category is a name under which the memory bank has no entry,
  the browse tool writes \<^verbatim>\<open>Category '<name>' not found\<close> to standard error, writes nothing to
  standard output (no list of categories), and exits with code 1.
\<close>

theorem browse_unknown_category:
  assumes "valid_name category" and "map_of es category = None"
  shows "memory_browse (Some (Dir es)) (Some category)
         = Some \<lparr>stdout = [],
                 stderr = [''Category '' @ [CHR 0x27] @ category @ [CHR 0x27] @ '' not found''],
                 exit_code = 1\<rparr>"
proof -
  from assms(1) have n: "category \<noteq> []" "category \<noteq> ''.''" "category \<noteq> ''..''"
    "CHR ''/'' \<notin> set category"
    by (auto simp: valid_name_def)
  from n(4) have "split (CHR ''/'') category = [category]" by (rule split_no_separator)
  with n assms(2) have "category_node (Some (Dir es)) category = Some None"
    by (simp add: category_node_def)
  with n(1) show ?thesis by (simp add: memory_browse_def)
qed

theorem browse_unknown_category_witness:
  "memory_browse (Some (Dir [(''bar'', Dir []), (''baz'', Dir [])])) (Some ''foo'')
   = Some \<lparr>stdout = [],
           stderr = [''Category '' @ [CHR 0x27] @ ''foo'' @ [CHR 0x27] @ '' not found''],
           exit_code = 1\<rparr>"
  using browse_unknown_category [of "''foo''" "[(''bar'', Dir []), (''baz'', Dir [])]"]
  by (simp add: valid_name_def)

text \<open>Scenario C of the specification: with the categories \<^verbatim>\<open>bar\<close> and \<^verbatim>\<open>baz\<close> present, browsing
  \<^verbatim>\<open>foo\<close> prints neither name.\<close>

theorem browse_lists_no_categories_counterexample:
  "map_option stdout
     (memory_browse (Some (Dir [(''bar'', Dir []), (''baz'', Dir [])])) (Some ''foo''))
   = Some []"
  by code_simp

section \<open>Facts about the search\<close>

lemma searchDirectory_markdown_files:
  "searchDirectory dir es term
   = concat (map (\<lambda>(p, c, st). searchInFile (path_relative p) c term) (markdown_files dir es))"
  by (induction dir es rule: markdown_files.induct) auto

lemma set_searchInFile:
  "set (searchInFile rel content term)
   = {\<lparr>match_file = rel, match_line = i + 1, match_content = trim (split newline content ! i)\<rparr> | i.
        i < length (split newline content)
        \<and> includes_str (toLowerCase (split newline content ! i)) (toLowerCase term)}"
  (is "?l = ?r")
proof (intro set_eqI iffI)
  fix m assume "m \<in> ?l"
  then obtain i ln where il: "(i, ln) \<in> set (enumerate 0 (split newline content))"
      "includes_str (toLowerCase ln) (toLowerCase term)"
      "m = \<lparr>match_file = rel, match_line = i + 1, match_content = trim ln\<rparr>"
    by (auto simp: searchInFile_def)
  from il(1) have "i < length (split newline content)" "split newline content ! i = ln"
    by (auto simp: in_set_enumerate_eq)
  with il show "m \<in> ?r" by auto
next
  fix m assume "m \<in> ?r"
  then obtain i where i: "i < length (split newline content)"
      "includes_str (toLowerCase (split newline content ! i)) (toLowerCase term)"
      "m = \<lparr>match_file = rel, match_line = i + 1, match_content = trim (split newline content ! i)\<rparr>"
    by auto
  from i(1) have "(i, split newline content ! i) \<in> set (enumerate 0 (split newline content))"
    by (simp add: in_set_enumerate_eq)
  with i(2,3) show "m \<in> ?l"
    by (force simp: searchInFile_def)
qed

section \<open>The search returns the matching lines of the files it reaches\<close>

text \<open>
  C7 (as the code has it). For every query, the matches the search returns are exactly these:
  one for each Markdown file the traversal reaches (a regular file named \<^verbatim>\<open>*.md\<close> that does not
  lie below a directory whose name begins with a dot) and each line of it (content split on line
  feed, counted from 1) whose lowercase form contains the lowercase query; the match carries the
  relative path, the line number and the trimmed line. The script refuses an empty query before
  it searches.
\<close>

theorem search_matches_exactly:
  "set (searchDirectory [] es term)
   = {\<lparr>match_file = path_relative p, match_line = i + 1,
        match_content = trim (split newline content ! i)\<rparr> | p content st i.
        (p, content, st) \<in> set (markdown_files [] es)
        \<and> i < length (split newline content)
        \<and> includes_str (toLowerCase (split newline content ! i)) (toLowerCase term)}"
  by (fastforce simp: searchDirectory_markdown_files set_searchInFile)

text \<open>A Markdown file below a hidden directory has a matching line that is not returned.\<close>

theorem search_hidden_directory_counterexample:
  "searchDirectory [] [(''.notes'', Dir [(''a.md'', File ''auth'' \<lparr>st_size = 4, st_mtime = ''t''\<rparr>)])] ''auth'' = []
   \<and> includes_str (toLowerCase ''auth'') (toLowerCase ''auth'')"
  by code_simp

section \<open>Facts about the index\<close>

lemma set_obj_set: "set (obj_set k v xs) \<subseteq> insert (k, v) (set xs)"
  by (induction xs) auto

lemma keys_obj_set: "fst ` set (obj_set k v xs) = insert k (fst ` set xs)"
  by (induction xs) auto

lemma files_categories_assign [simp]: "idx_files (categories_assign c idx) = idx_files idx"
  by (simp add: categories_assign_def)

lemma files_categories_push:
  "categories_push c p idx = Inr idx' \<Longrightarrow> idx_files idx' = idx_files idx"
  by (auto simp: categories_push_def split: option.splits if_splits)

lemma files_tags_push: "tags_push t p idx = Inr idx' \<Longrightarrow> idx_files idx' = idx_files idx"
  by (auto simp: tags_push_def split: option.splits if_splits)

lemma files_index_tags: "index_tags ts p idx = Inr idx' \<Longrightarrow> idx_files idx' = idx_files idx"
  by (induction ts p idx rule: index_tags.induct) (auto split: sum.splits dest: files_tags_push)

lemma categories_tags_push:
  "tags_push t p idx = Inr idx' \<Longrightarrow> idx_categories idx' = idx_categories idx"
  by (auto simp: tags_push_def split: option.splits if_splits)

lemma categories_index_tags:
  "index_tags ts p idx = Inr idx' \<Longrightarrow> idx_categories idx' = idx_categories idx"
  by (induction ts p idx rule: index_tags.induct) (auto split: sum.splits dest: categories_tags_push)

lemma files_index_file:
  "index_file dir name content st category idx = Inr idx' \<Longrightarrow>
   idx_files idx' = obj_set (path_relative (dir @ [name])) (file_entry_of name content st category) (idx_files idx)"
  by (auto simp: index_file_def Let_def split: sum.splits if_splits
      dest!: files_index_tags files_categories_push)

lemma markdown_files_longer:
  "(p, c, st) \<in> set (markdown_files dir es) \<Longrightarrow> length dir < length p"
  by (induction dir es rule: markdown_files.induct) (auto split: if_splits)

lemma from_file_rest:
  "from_file dir rest category ke \<Longrightarrow> from_file dir (x # rest) category ke"
proof -
  assume "from_file dir rest category ke"
  then obtain p c st cat where h: "(p, c, st) \<in> set (markdown_files dir rest)" "fst ke = path_relative p"
    "snd ke = file_entry_of (last p) c st cat" "length p = Suc (length dir) \<longrightarrow> cat = category"
    unfolding from_file_def by blast
  obtain name n where x: "x = (name, n)" by (cases x)
  from h(1) have "(p, c, st) \<in> set (markdown_files dir (x # rest))"
    unfolding x by (cases n) auto
  with h(2-4) show ?thesis unfolding from_file_def by blast
qed

lemma from_file_sub:
  assumes "from_file (dir @ [name]) sub cat' ke" and "\<not> startsWith name ''.''"
  shows "from_file dir ((name, Dir sub) # rest) category ke"
proof -
  from assms(1) obtain p c st cat where h: "(p, c, st) \<in> set (markdown_files (dir @ [name]) sub)"
    "fst ke = path_relative p" "snd ke = file_entry_of (last p) c st cat"
    unfolding from_file_def by blast
  from h(1) have "length p \<noteq> Suc (length dir)" by (auto dest: markdown_files_longer)
  moreover from h(1) assms(2) have "(p, c, st) \<in> set (markdown_files dir ((name, Dir sub) # rest))"
    by simp
  ultimately show ?thesis using h(2,3) unfolding from_file_def by blast
qed

lemma from_file_here:
  assumes "endsWith name ''.md''"
  shows "from_file dir ((name, File content st) # rest) category
     (path_relative (dir @ [name]), file_entry_of name content st category)"
proof -
  from assms have "(dir @ [name], content, st) \<in> set (markdown_files dir ((name, File content st) # rest))"
    by simp
  then show ?thesis unfolding from_file_def
    by (intro exI[of _ "dir @ [name]"] exI[of _ content] exI[of _ st] exI[of _ category]) simp
qed

lemma indexDirectory_files:
  "indexDirectory dir es category idx = Inr idx' \<Longrightarrow> ke \<in> set (idx_files idx') \<Longrightarrow>
     ke \<in> set (idx_files idx) \<or> from_file dir es category ke"
proof (induction dir es category idx arbitrary: idx' rule: indexDirectory.induct)
  case (1 dir category idx)
  then show ?case by simp
next
  case (2 dir name sub rest category idx)
  show ?case
  proof (cases "startsWith name ''.''")
    case True
    with "2.prems"(1) have ne: "\<not> endsWith name ''.md''"
      and r: "indexDirectory dir rest category idx = Inr idx'"
      by (auto split: if_splits)
    from "2.IH"(3)[OF _ ne r "2.prems"(2)] True show ?thesis
      by (auto intro: from_file_rest)
  next
    case False
    with "2.prems"(1) obtain idx1 where
      a: "indexDirectory (dir @ [name]) sub (subCategory category name)
            (categories_assign (subCategory category name) idx) = Inr idx1"
      and b: "indexDirectory dir rest category idx1 = Inr idx'"
      by (auto split: sum.splits)
    from "2.IH"(2)[OF False a b "2.prems"(2)]
    show ?thesis
    proof
      assume "ke \<in> set (idx_files idx1)"
      from "2.IH"(1)[OF False a this] show ?thesis
        using False by (auto intro: from_file_sub)
    next
      assume "from_file dir rest category ke"
      then show ?thesis by (auto intro: from_file_rest)
    qed
  qed
next
  case (3 dir name content st rest category idx)
  show ?case
  proof (cases "endsWith name ''.md''")
    case False
    with "3.prems"(1) have r: "indexDirectory dir rest category idx = Inr idx'" by simp
    from "3.IH"(2)[OF False r "3.prems"(2)] show ?thesis
      by (auto intro: from_file_rest)
  next
    case True
    with "3.prems"(1) obtain idx1 where
      a: "index_file dir name content st category idx = Inr idx1"
      and b: "indexDirectory dir rest category idx1 = Inr idx'"
      by (auto split: sum.splits)
    from "3.IH"(1)[OF True a b "3.prems"(2)]
    show ?thesis
    proof
      assume "ke \<in> set (idx_files idx1)"
      with files_index_file[OF a] set_obj_set
      have "ke = (path_relative (dir @ [name]), file_entry_of name content st category)
            \<or> ke \<in> set (idx_files idx)" by fastforce
      then show ?thesis using from_file_here[OF True] by auto
    next
      assume "from_file dir rest category ke"
      then show ?thesis by (auto intro: from_file_rest)
    qed
  qed
qed


lemma find_summary_line_tails:
  "find_summary b s
   = find (\<lambda>l. l \<noteq> [] \<and> hd l \<noteq> CHR ''#'')
       (map (takeWhile (\<lambda>c. c \<noteq> newline)) ((if b then [s] else []) @ line_tails s))"
proof (induction s arbitrary: b)
  case Nil
  then show ?case by simp
next
  case (Cons c cs)
  have sharp: "CHR ''#'' \<noteq> newline" by (simp add: newline_def)
  show ?case
  proof (cases "b \<and> c \<noteq> CHR ''#'' \<and> c \<noteq> newline")
    case True
    then show ?thesis by simp
  next
    case False
    then have "find_summary b (c # cs) = find_summary (is_line_terminator c) cs" by auto
    also have "\<dots> = find (\<lambda>l. l \<noteq> [] \<and> hd l \<noteq> CHR ''#'')
       (map (takeWhile (\<lambda>c. c \<noteq> newline)) (line_tails (c # cs)))"
      by (simp add: Cons.IH)
    finally show ?thesis using False sharp by auto
  qed
qed

lemma find_summary_first_plain_line: "find_summary True content = first_plain_line content"
  by (simp add: find_summary_line_tails first_plain_line_def line_texts_def)

lemma summary_rule:
  "fe_summary (file_entry_of name content st category)
   = (case first_plain_line content of
        Some l \<Rightarrow> l
      | None \<Rightarrow> newlines_to_spaces (take 200 content))"
proof (cases "first_plain_line content")
  case None
  then show ?thesis
    by (simp add: file_entry_of_def extractMetadata_def find_summary_first_plain_line)
next
  case (Some l)
  then have "l \<noteq> []" by (auto simp: first_plain_line_def find_Some_iff)
  with Some show ?thesis
    by (simp add: file_entry_of_def extractMetadata_def find_summary_first_plain_line)
qed

lemma path_relative_slash: "2 \<le> length p \<Longrightarrow> CHR ''/'' \<in> set (path_relative p)"
proof -
  assume "2 \<le> length p"
  then obtain x y ys where "p = x # y # ys" by (cases p; cases "tl p") auto
  then show ?thesis by (simp add: path_relative_def)
qed

lemma path_relative_single [simp]: "path_relative [x] = x"
  by (simp add: path_relative_def)

lemma indexDirectory_keys_mono:
  "indexDirectory dir es category idx = Inr idx' \<Longrightarrow>
   fst ` set (idx_files idx) \<subseteq> fst ` set (idx_files idx')"
proof (induction dir es category idx arbitrary: idx' rule: indexDirectory.induct)
  case (1 dir category idx)
  then show ?case by simp
next
  case (2 dir name sub rest category idx)
  show ?case
  proof (cases "startsWith name ''.''")
    case True
    with "2.prems" have ne: "\<not> endsWith name ''.md''"
      and r: "indexDirectory dir rest category idx = Inr idx'"
      by (auto split: if_splits)
    from "2.IH"(3)[OF _ ne r] True show ?thesis by simp
  next
    case False
    with "2.prems" obtain idx1 where
      a: "indexDirectory (dir @ [name]) sub (subCategory category name)
            (categories_assign (subCategory category name) idx) = Inr idx1"
      and b: "indexDirectory dir rest category idx1 = Inr idx'"
      by (auto split: sum.splits)
    from "2.IH"(1)[OF False a] "2.IH"(2)[OF False a b] show ?thesis by simp
  qed
next
  case (3 dir name content st rest category idx)
  show ?case
  proof (cases "endsWith name ''.md''")
    case False
    with "3.prems" have r: "indexDirectory dir rest category idx = Inr idx'" by simp
    from "3.IH"(2)[OF False r] show ?thesis .
  next
    case True
    with "3.prems" obtain idx1 where
      a: "index_file dir name content st category idx = Inr idx1"
      and b: "indexDirectory dir rest category idx1 = Inr idx'"
      by (auto split: sum.splits)
    from "3.IH"(1)[OF True a b] files_index_file[OF a] show ?thesis
      by (auto simp: keys_obj_set)
  qed
qed

lemma indexDirectory_has_key:
  "indexDirectory dir es category idx = Inr idx' \<Longrightarrow> (name, File content st) \<in> set es \<Longrightarrow>
   endsWith name ''.md'' \<Longrightarrow> path_relative (dir @ [name]) \<in> fst ` set (idx_files idx')"
proof (induction es arbitrary: idx)
  case Nil
  then show ?case by simp
next
  case (Cons x rest)
  obtain n1 nd where x: "x = (n1, nd)" by (cases x)
  show ?case
  proof (cases nd)
    case (Dir sub)
    show ?thesis
    proof (cases "startsWith n1 ''.''")
      case True
      with Cons.prems(1) have "indexDirectory dir rest category idx = Inr idx'"
        unfolding x Dir by (auto split: if_splits)
      from Cons.IH[OF this] Cons.prems(2,3) show ?thesis unfolding x Dir by auto
    next
      case False
      with Cons.prems(1) obtain idx1 where "indexDirectory dir rest category idx1 = Inr idx'"
        unfolding x Dir by (auto split: sum.splits)
      from Cons.IH[OF this] Cons.prems(2,3) show ?thesis unfolding x Dir by auto
    qed
  next
    case (File c1 st1)
    show ?thesis
    proof (cases "endsWith n1 ''.md''")
      case False
      with Cons.prems(1) have "indexDirectory dir rest category idx = Inr idx'"
        unfolding x File by simp
      from Cons.IH[OF this] Cons.prems(2,3) False show ?thesis unfolding x File by auto
    next
      case True
      with Cons.prems(1) obtain idx1 where
        a: "index_file dir n1 c1 st1 category idx = Inr idx1"
        and b: "indexDirectory dir rest category idx1 = Inr idx'"
        unfolding x File by (auto split: sum.splits)
      show ?thesis
      proof (cases "(name, File content st) \<in> set rest")
        case True
        from Cons.IH[OF b True Cons.prems(3)] show ?thesis .
      next
        case False
        with Cons.prems(2) have "name = n1" unfolding x File by simp
        with files_index_file[OF a] have "path_relative (dir @ [name]) \<in> fst ` set (idx_files idx1)"
          by (simp add: keys_obj_set)
        with indexDirectory_keys_mono[OF b] show ?thesis by blast
      qed
    qed
  qed
qed

lemma category_paths_assign: "category_paths (categories_assign c idx) \<subseteq> category_paths idx"
proof
  fix x assume "x \<in> category_paths (categories_assign c idx)"
  then obtain kp where kp: "kp \<in> set (idx_categories (categories_assign c idx))" "x \<in> set (snd kp)"
    by (auto simp: category_paths_def)
  have "set (obj_set c [] (idx_categories idx)) \<subseteq> insert (c, []) (set (idx_categories idx))"
    by (rule set_obj_set)
  with kp have "kp \<in> set (idx_categories idx)"
    by (auto simp: categories_assign_def split: if_splits)
  with kp(2) show "x \<in> category_paths idx" by (auto simp: category_paths_def)
qed

lemma category_paths_push:
  assumes "categories_push c p idx = Inr idx'"
  shows "category_paths idx' \<subseteq> insert p (category_paths idx)"
proof (cases "map_of (idx_categories idx) c")
  case None
  with assms show ?thesis
    by (auto simp: categories_push_def category_paths_def split: if_splits option.splits)
next
  case (Some paths)
  then have in_set: "(c, paths) \<in> set (idx_categories idx)" by (rule map_of_SomeD)
  from Some assms have i': "idx_categories idx' = obj_set c (paths @ [p]) (idx_categories idx)"
    by (auto simp: categories_push_def)
  have "set (obj_set c (paths @ [p]) (idx_categories idx))
        \<subseteq> insert (c, paths @ [p]) (set (idx_categories idx))"
    by (rule set_obj_set)
  with in_set show ?thesis
    unfolding category_paths_def i' by fastforce
qed

lemma category_paths_index_file:
  assumes "index_file dir name content st category idx = Inr idx'"
  shows "category_paths idx'
         \<subseteq> (if category \<noteq> [] then {path_relative (dir @ [name])} else {}) \<union> category_paths idx"
proof -
  let ?idx1 = "idx\<lparr>idx_files := obj_set (path_relative (dir @ [name]))
                  (file_entry_of name content st category) (idx_files idx)\<rparr>"
  have c1: "category_paths ?idx1 = category_paths idx" by (simp add: category_paths_def)
  from assms obtain idx2 where
    a: "(if category \<noteq> [] then categories_push category (path_relative (dir @ [name])) ?idx1
         else Inr ?idx1) = Inr idx2"
    and b: "index_tags (md_tags (extractMetadata content)) (path_relative (dir @ [name])) idx2 = Inr idx'"
    by (auto simp: index_file_def Let_def split: sum.splits)
  from categories_index_tags[OF b] have c2: "category_paths idx' = category_paths idx2"
    by (simp add: category_paths_def)
  show ?thesis
  proof (cases "category = []")
    case True
    with a c1 c2 show ?thesis by auto
  next
    case False
    with a have "categories_push category (path_relative (dir @ [name])) ?idx1 = Inr idx2" by simp
    from category_paths_push[OF this] c1 c2 False show ?thesis by auto
  qed
qed

lemma indexDirectory_category_paths:
  "indexDirectory dir es category idx = Inr idx' \<Longrightarrow> (category \<noteq> [] \<longrightarrow> dir \<noteq> []) \<Longrightarrow>
   category_paths idx' \<subseteq> category_paths idx \<union> {x. CHR ''/'' \<in> set x}"
proof (induction dir es category idx arbitrary: idx' rule: indexDirectory.induct)
  case (1 dir category idx)
  then show ?case by simp
next
  case (2 dir name sub rest category idx)
  show ?case
  proof (cases "startsWith name ''.''")
    case True
    with "2.prems" have ne: "\<not> endsWith name ''.md''"
      and r: "indexDirectory dir rest category idx = Inr idx'"
      by (auto split: if_splits)
    from "2.IH"(3)[OF _ ne r "2.prems"(2)] True show ?thesis by simp
  next
    case False
    with "2.prems" obtain idx1 where
      a: "indexDirectory (dir @ [name]) sub (subCategory category name)
            (categories_assign (subCategory category name) idx) = Inr idx1"
      and b: "indexDirectory dir rest category idx1 = Inr idx'"
      by (auto split: sum.splits)
    from "2.IH"(1)[OF False a] have "category_paths idx1
        \<subseteq> category_paths (categories_assign (subCategory category name) idx) \<union> {x. CHR ''/'' \<in> set x}"
      by simp
    with category_paths_assign "2.IH"(2)[OF False a b "2.prems"(2)] show ?thesis by blast
  qed
next
  case (3 dir name content st rest category idx)
  show ?case
  proof (cases "endsWith name ''.md''")
    case False
    with "3.prems" have r: "indexDirectory dir rest category idx = Inr idx'" by simp
    from "3.IH"(2)[OF False r "3.prems"(2)] show ?thesis .
  next
    case True
    with "3.prems" obtain idx1 where
      a: "index_file dir name content st category idx = Inr idx1"
      and b: "indexDirectory dir rest category idx1 = Inr idx'"
      by (auto split: sum.splits)
    have "category \<noteq> [] \<Longrightarrow> CHR ''/'' \<in> set (path_relative (dir @ [name]))"
    proof -
      assume "category \<noteq> []"
      with "3.prems"(2) have "dir \<noteq> []" by simp
      then have "2 \<le> length (dir @ [name])" by (cases dir) auto
      then show ?thesis by (rule path_relative_slash)
    qed
    with category_paths_index_file[OF a]
    have "category_paths idx1 \<subseteq> category_paths idx \<union> {x. CHR ''/'' \<in> set x}"
      by (auto split: if_splits)
    with "3.IH"(1)[OF True a b "3.prems"(2)] show ?thesis by blast
  qed
qed

section \<open>The summary of an indexed file\<close>

text \<open>
  C5 (as the code has it), for contents that hold neither U+2028 nor U+2029 (the strings of the
  model have no such character; \<^verbatim>\<open>^\<close> anchors behind them as well). Every entry of \<^verbatim>\<open>index.files\<close>
  belongs to a Markdown file the traversal reached, and its summary is the first line text of
  that file that is not empty and does not begin with \<^verbatim>\<open>#\<close>, in full (no truncation); when the
  file has no such line, the summary is the first 200 characters of the content with every line
  feed replaced by a space. A line text starts at the beginning of the content or behind a line
  feed or carriage return and ends before the next line feed.
\<close>

theorem indexed_summary:
  assumes "build_index now es = Inr idx" and "(p, e) \<in> set (idx_files idx)"
  shows "\<exists>q content st. (q, content, st) \<in> set (markdown_files [] es) \<and> p = path_relative q
           \<and> fe_summary e = (case first_plain_line content of
                                Some l \<Rightarrow> l
                              | None \<Rightarrow> newlines_to_spaces (take 200 content))"
proof -
  from indexDirectory_files[OF assms(1)[unfolded build_index_def] assms(2)]
  have "from_file [] es [] (p, e)" by (simp add: empty_index_def)
  then obtain q c st cat where h: "(q, c, st) \<in> set (markdown_files [] es)" "p = path_relative q"
    "e = file_entry_of (last q) c st cat"
    unfolding from_file_def by auto
  show ?thesis
    by (intro exI[of _ q] exI[of _ c] exI[of _ st]) (simp add: h summary_rule)
qed

theorem indexed_summary_witness:
  "\<exists>q content st.
      (q, content, st) \<in> set (markdown_files []
         [(''a.md'', File (''# Title'' @ [newline] @ [newline] @ ''Body text'') \<lparr>st_size = 18, st_mtime = ''t0''\<rparr>)])
      \<and> ''a.md'' = path_relative q
      \<and> ''Body text'' = (case first_plain_line content of
                            Some l \<Rightarrow> l
                          | None \<Rightarrow> newlines_to_spaces (take 200 content))"
proof -
  let ?es = "[(''a.md'', File (''# Title'' @ [newline] @ [newline] @ ''Body text'') \<lparr>st_size = 18, st_mtime = ''t0''\<rparr>)]"
  let ?e = "\<lparr>fe_category = [], fe_size = 18, fe_modified = ''t0'', fe_title = ''Title'',
             fe_tags = [], fe_summary = ''Body text''\<rparr>"
  let ?idx = "\<lparr>idx_updated = ''t'', idx_files = [(''a.md'', ?e)], idx_categories = [], idx_tags = [],
               idx_categories_proto = None\<rparr>"
  have a: "build_index ''t'' ?es = Inr ?idx" by code_simp
  have b: "(''a.md'', ?e) \<in> set (idx_files ?idx)" by simp
  from indexed_summary[OF a b] show ?thesis by simp
qed

text \<open>A file that holds only a heading has no line that is not a heading, yet its summary is
  not empty.\<close>

theorem heading_only_summary_counterexample:
  "build_index ''t'' [(''a.md'', File ''# Title'' \<lparr>st_size = 7, st_mtime = ''t0''\<rparr>)]
   = Inr \<lparr>idx_updated = ''t'',
           idx_files = [(''a.md'', \<lparr>fe_category = [], fe_size = 7, fe_modified = ''t0'',
                          fe_title = ''Title'', fe_tags = [], fe_summary = ''# Title''\<rparr>)],
           idx_categories = [], idx_tags = [], idx_categories_proto = None\<rparr>"
  by code_simp

section \<open>Markdown files at the root of the memory bank\<close>

text \<open>
  C9. When the indexer succeeds, a Markdown file that lies directly in the memory bank has an
  entry in \<^verbatim>\<open>index.files\<close> under its name, the category of that entry is the empty string, and
  the name occurs in no list of \<^verbatim>\<open>index.categories\<close>.
\<close>

theorem root_files_have_no_category:
  assumes "build_index now es = Inr idx"
    and "(name, File content st) \<in> set es" and "endsWith name ''.md''"
    and "CHR ''/'' \<notin> set name"
  shows "(\<exists>e. map_of (idx_files idx) name = Some e \<and> fe_category e = [])
         \<and> (\<forall>(k, paths) \<in> set (idx_categories idx). name \<notin> set paths)"
proof
  from assms(1) have run: "indexDirectory [] es [] (empty_index now) = Inr idx"
    by (simp add: build_index_def)
  from indexDirectory_has_key[OF run assms(2,3)] have "name \<in> fst ` set (idx_files idx)" by simp
  then obtain e where e: "map_of (idx_files idx) name = Some e"
    by (cases "map_of (idx_files idx) name") (auto simp: map_of_eq_None_iff)
  then have "(name, e) \<in> set (idx_files idx)" by (rule map_of_SomeD)
  from indexDirectory_files[OF run this] have "from_file [] es [] (name, e)"
    by (simp add: empty_index_def)
  then obtain p c st' cat where h: "name = path_relative p" "e = file_entry_of (last p) c st' cat"
    "length p = Suc 0 \<longrightarrow> cat = []" "(p, c, st') \<in> set (markdown_files [] es)"
    unfolding from_file_def by auto
  from h(4) have "0 < length p" by (auto dest: markdown_files_longer)
  moreover from h(1) assms(4) have "\<not> 2 \<le> length p" by (auto dest: path_relative_slash)
  ultimately have "length p = Suc 0" by linarith
  with h(2,3) have "fe_category e = []" by (simp add: file_entry_of_def Let_def)
  with e show "\<exists>e. map_of (idx_files idx) name = Some e \<and> fe_category e = []" by blast
  from indexDirectory_category_paths[OF run]
  have "category_paths idx \<subseteq> {x. CHR ''/'' \<in> set x}"
    by (simp add: category_paths_def empty_index_def)
  with assms(4) show "\<forall>(k, paths) \<in> set (idx_categories idx). name \<notin> set paths"
    by (fastforce simp: category_paths_def)
qed

theorem root_files_have_no_category_witness:
  "(\<exists>e. map_of [(''a.md'', \<lparr>fe_category = [], fe_size = 7, fe_modified = ''t0'',
                     fe_title = ''Title'', fe_tags = [], fe_summary = ''# Title''\<rparr>),
                  (''d/b.md'', \<lparr>fe_category = ''d'', fe_size = 7, fe_modified = ''t0'',
                     fe_title = ''b'', fe_tags = [], fe_summary = ''text''\<rparr>)] ''a.md'' = Some e
        \<and> fe_category e = [])
   \<and> ''a.md'' \<notin> set (snd (''d'', [''d/b.md'']))"
proof -
  let ?es = "[(''a.md'', File ''# Title'' \<lparr>st_size = 7, st_mtime = ''t0''\<rparr>),
              (''d'', Dir [(''b.md'', File ''text'' \<lparr>st_size = 7, st_mtime = ''t0''\<rparr>)])]"
  let ?idx = "\<lparr>idx_updated = ''t'',
      idx_files = [(''a.md'', \<lparr>fe_category = [], fe_size = 7, fe_modified = ''t0'',
                     fe_title = ''Title'', fe_tags = [], fe_summary = ''# Title''\<rparr>),
                   (''d/b.md'', \<lparr>fe_category = ''d'', fe_size = 7, fe_modified = ''t0'',
                     fe_title = ''b'', fe_tags = [], fe_summary = ''text''\<rparr>)],
      idx_categories = [(''d'', [''d/b.md''])], idx_tags = [], idx_categories_proto = None\<rparr>"
  have a: "build_index ''t'' ?es = Inr ?idx" by code_simp
  have b: "(''a.md'', File ''# Title'' \<lparr>st_size = 7, st_mtime = ''t0''\<rparr>) \<in> set ?es" by simp
  have c: "endsWith ''a.md'' ''.md''" by code_simp
  have d: "CHR ''/'' \<notin> set ''a.md''" by simp
  from root_files_have_no_category[OF a b c d] show ?thesis by simp
qed

section \<open>Hidden directories\<close>

lemma browse_subdirectory:
  "(h, Dir sub) \<in> set es \<Longrightarrow>
     (indent @ icon_folder @ '' '' @ h @ ''/'') \<in> set (browseDirectory es indent)
     \<and> set (browseDirectory sub (indent @ ''  '')) \<subseteq> set (browseDirectory es indent)"
  by (induction es indent rule: browseDirectory.induct) auto

lemma browse_markdown_file:
  "(f, File c st) \<in> set es \<Longrightarrow> endsWith f ''.md'' \<Longrightarrow>
     (indent @ icon_page @ '' '' @ f) \<in> set (browseDirectory es indent)"
  by (induction es indent rule: browseDirectory.induct) auto

lemma search_without_hidden:
  "searchDirectory dir (without_hidden es) term = searchDirectory dir es term"
  by (induction dir es "term" rule: searchDirectory.induct) auto

lemma index_without_hidden:
  "indexDirectory dir es category idx = Inr idx' \<Longrightarrow>
   indexDirectory dir (without_hidden es) category idx = Inr idx'"
  by (induction dir es category idx arbitrary: idx' rule: indexDirectory.induct)
     (auto simp: Let_def split: if_splits sum.splits)

text \<open>
  What holds of every listing: the browse tool prints a folder header for every subdirectory,
  whatever its name, and recurses into it, so the Markdown files of a directory whose name begins
  with a dot are listed. The search does not enter such a directory, and neither does the
  indexer: their results are those for the listing without its hidden directories (for the
  indexer, whenever it returns an index).
\<close>

lemma hidden_directories:
  assumes "(h, Dir sub) \<in> set es" and "(f, File content st) \<in> set sub" and "endsWith f ''.md''"
  shows "(indent @ icon_folder @ '' '' @ h @ ''/'') \<in> set (browseDirectory es indent)
       \<and> set (browseDirectory sub (indent @ ''  '')) \<subseteq> set (browseDirectory es indent)
       \<and> (indent @ ''  '' @ icon_page @ '' '' @ f) \<in> set (browseDirectory es indent)
       \<and> searchDirectory dir (without_hidden es) term = searchDirectory dir es term
       \<and> (\<forall>idx'. indexDirectory dir es category idx = Inr idx'
              \<longrightarrow> indexDirectory dir (without_hidden es) category idx = Inr idx')"
proof -
  from browse_markdown_file[OF assms(2,3), of "indent @ ''  ''"]
  have "(indent @ ''  '' @ icon_page @ '' '' @ f) \<in> set (browseDirectory sub (indent @ ''  ''))"
    by simp
  with browse_subdirectory[OF assms(1), of indent] search_without_hidden index_without_hidden
  show ?thesis by blast
qed

text \<open>
  C10 (where the code departs from it). The indexer does not skip every directory whose name
  begins with a dot: a hidden directory whose name ends in \<^verbatim>\<open>.md\<close> fails the test of the first
  branch and is taken by \<^verbatim>\<open>else if (file.endsWith('.md'))\<close>, where \<^verbatim>\<open>fs.readFileSync\<close> throws
  \<^verbatim>\<open>EISDIR\<close>; the run ends there and no index is written. The search, whose second branch also
  asks for \<^verbatim>\<open>stat.isFile()\<close>, passes over the same directory, whatever it holds.
\<close>

theorem hidden_markdown_directory_aborts_index:
  "build_index now ((''.drafts.md'', Dir sub) # rest) = Inl EISDIR
   \<and> searchDirectory [] ((''.drafts.md'', Dir sub) # rest) term = searchDirectory [] rest term"
proof -
  have h: "startsWith ''.drafts.md'' ''.''" by code_simp
  have m: "endsWith ''.drafts.md'' ''.md''" by code_simp
  from h m show ?thesis by (simp add: build_index_def)
qed

section \<open>Running the indexer twice\<close>

lemma map_of_put_entry [simp]: "map_of (put_entry k v es) k = Some v"
  by (induction es) auto

lemma indexDirectory_put_entry:
  assumes "\<not> endsWith name ''.md''" and "\<forall>sub. map_of es name \<noteq> Some (Dir sub)"
  shows "indexDirectory dir (put_entry name (File c st) es) category idx
         = indexDirectory dir es category idx"
  using assms(2)
proof (induction es arbitrary: idx)
  case Nil
  with assms(1) show ?case by simp
next
  case (Cons x rest)
  obtain n1 nd where x: "x = (n1, nd)" by (cases x)
  show ?case
  proof (cases "n1 = name")
    case True
    with Cons.prems obtain c1 st1 where "nd = File c1 st1" unfolding x by (cases nd) auto
    with True assms(1) show ?thesis unfolding x by simp
  next
    case False
    with Cons.prems have "\<forall>sub. map_of rest name \<noteq> Some (Dir sub)" unfolding x by simp
    then have ih: "\<And>idx. indexDirectory dir (put_entry name (File c st) rest) category idx
         = indexDirectory dir rest category idx" by (rule Cons.IH)
    from False show ?thesis unfolding x by (cases nd) (simp_all add: ih split: sum.splits)
  qed
qed

lemma categories_assign_updated:
  "categories_assign c (idx\<lparr>idx_updated := u\<rparr>) = (categories_assign c idx)\<lparr>idx_updated := u\<rparr>"
  by (simp add: categories_assign_def)

lemma categories_push_updated:
  "categories_push c p (idx\<lparr>idx_updated := u\<rparr>) = at_time u (categories_push c p idx)"
  by (simp add: categories_push_def split: option.splits)

lemma tags_push_updated:
  "tags_push t p (idx\<lparr>idx_updated := u\<rparr>) = at_time u (tags_push t p idx)"
  by (simp add: tags_push_def split: option.splits)

lemma index_tags_updated:
  "index_tags ts p (idx\<lparr>idx_updated := u\<rparr>) = at_time u (index_tags ts p idx)"
  by (induction ts p idx rule: index_tags.induct) (auto simp: tags_push_updated split: sum.splits)

lemma index_file_updated:
  "index_file dir name content st category (idx\<lparr>idx_updated := u\<rparr>)
   = at_time u (index_file dir name content st category idx)"
proof -
  define i1 where "i1 = idx\<lparr>idx_files := obj_set (path_relative (dir @ [name]))
                           (file_entry_of name content st category) (idx_files idx)\<rparr>"
  have c: "(idx\<lparr>idx_updated := u\<rparr>)\<lparr>idx_files := obj_set (path_relative (dir @ [name]))
              (file_entry_of name content st category) (idx_files (idx\<lparr>idx_updated := u\<rparr>))\<rparr>
           = i1\<lparr>idx_updated := u\<rparr>"
    by (simp add: i1_def)
  have l: "index_file dir name content st category (idx\<lparr>idx_updated := u\<rparr>)
        = (case (if category \<noteq> [] then categories_push category (path_relative (dir @ [name])) (i1\<lparr>idx_updated := u\<rparr>)
                 else Inr (i1\<lparr>idx_updated := u\<rparr>)) of
             Inl e \<Rightarrow> Inl e
           | Inr idx2 \<Rightarrow> index_tags (md_tags (extractMetadata content)) (path_relative (dir @ [name])) idx2)"
    unfolding index_file_def Let_def c ..
  have r: "index_file dir name content st category idx
        = (case (if category \<noteq> [] then categories_push category (path_relative (dir @ [name])) i1
                 else Inr i1) of
             Inl e \<Rightarrow> Inl e
           | Inr idx2 \<Rightarrow> index_tags (md_tags (extractMetadata content)) (path_relative (dir @ [name])) idx2)"
    unfolding index_file_def Let_def i1_def ..
  show ?thesis unfolding l r
    by (auto simp: categories_push_updated index_tags_updated split: sum.splits)
qed

lemma indexDirectory_updated:
  "indexDirectory dir es category (idx\<lparr>idx_updated := u\<rparr>)
   = at_time u (indexDirectory dir es category idx)"
  by (induction dir es category idx rule: indexDirectory.induct)
     (auto simp: categories_assign_updated index_file_updated split: sum.splits)

lemma build_index_at_time: "build_index t2 es = at_time t2 (build_index t1 es)"
proof -
  have "empty_index t2 = (empty_index t1)\<lparr>idx_updated := t2\<rparr>" by (simp add: empty_index_def)
  then show ?thesis by (simp add: build_index_def indexDirectory_updated)
qed

lemma files_updated [simp]: "idx_files (idx\<lparr>idx_updated := u\<rparr>) = idx_files idx" by simp

lemma memory_update_success:
  assumes "memory_update stringify shown now bank = (bank1, out1)" and "exit_code out1 = 0"
  shows "\<exists>es idx es1. bank = Some (Dir es) \<and> build_index now es = Inr idx
           \<and> writeFileSync es ''.index.json'' (stringify idx) now = Inr es1
           \<and> bank1 = Some (Dir es1)"
proof (cases "readdirSync bank")
  case (Inl e)
  with assms show ?thesis by (auto simp: memory_update_def uncaught_def)
next
  case (Inr es)
  then have bank: "bank = Some (Dir es)"
    by (auto simp: readdirSync_def split: option.splits node.splits)
  show ?thesis
  proof (cases "build_index now es")
    case (Inl e)
    with assms Inr show ?thesis by (auto simp: memory_update_def uncaught_def)
  next
    case idx: (Inr idx)
    show ?thesis
    proof (cases "writeFileSync es ''.index.json'' (stringify idx) now")
      case (Inl e)
      with assms Inr idx show ?thesis by (auto simp: memory_update_def uncaught_def)
    next
      case w: (Inr es1)
      with assms Inr idx have "bank1 = Some (Dir es1)" by (simp add: memory_update_def)
      with bank idx w show ?thesis by blast
    qed
  qed
qed

lemma memory_update_run:
  assumes "build_index now es = Inr idx"
    and "writeFileSync es ''.index.json'' (stringify idx) now = Inr es1"
  shows "memory_update stringify shown now (Some (Dir es))
         = (Some (Dir es1),
            \<lparr>stdout = [[newline] @ icon_arrows @ '' Updating Memory Bank Index...'' @ [newline]]
                       @ update_messages shown idx,
              stderr = [], exit_code = 0\<rparr>)"
  using assms by (simp add: memory_update_def readdirSync_def)

lemma update_messages_at_time [simp]:
  "update_messages shown (idx\<lparr>idx_updated := u\<rparr>) = update_messages shown idx"
  by (simp add: update_messages_def)

text \<open>
  C8. When a run of the indexer at time \<open>t1\<close> succeeds, it leaves the JSON text of an index
  \<open>idx\<close> in \<^verbatim>\<open>.index.json\<close>; a second run at time \<open>t2\<close> on the memory bank as the first run left
  it succeeds as well, prints the same messages and leaves the JSON text of the same index with
  nothing but \<^verbatim>\<open>updated\<close> changed to \<open>t2\<close>. (\<open>stringify\<close> is \<^verbatim>\<open>JSON.stringify\<close>; any function of the
  index will do.)
\<close>

theorem index_twice:
  assumes "memory_update stringify shown t1 bank = (bank1, out1)" and "exit_code out1 = 0"
  shows "\<exists>idx es1 es2.
           (\<exists>es. bank = Some (Dir es) \<and> build_index t1 es = Inr idx)
           \<and> bank1 = Some (Dir es1)
           \<and> map_of es1 ''.index.json'' = Some (written (stringify idx) t1)
           \<and> memory_update stringify shown t2 bank1 = (Some (Dir es2), out1)
           \<and> map_of es2 ''.index.json'' = Some (written (stringify (idx\<lparr>idx_updated := t2\<rparr>)) t2)"
proof -
  from memory_update_success[OF assms] obtain es idx es1 where
    bank: "bank = Some (Dir es)" and idx: "build_index t1 es = Inr idx"
    and w: "writeFileSync es ''.index.json'' (stringify idx) t1 = Inr es1"
    and b1: "bank1 = Some (Dir es1)" by blast
  from w have nodir: "\<forall>sub. map_of es ''.index.json'' \<noteq> Some (Dir sub)"
    and es1: "es1 = put_entry ''.index.json'' (written (stringify idx) t1) es"
    by (auto simp: writeFileSync_def split: option.splits node.splits)
  from memory_update_run[where stringify = stringify and shown = shown, OF idx w] assms(1) bank
  have o1: "out1 = \<lparr>stdout = [[newline] @ icon_arrows @ '' Updating Memory Bank Index...'' @ [newline]]
                       @ update_messages shown idx, stderr = [], exit_code = 0\<rparr>" by simp
  have ne: "\<not> endsWith ''.index.json'' ''.md''" by code_simp
  have "build_index t1 es1 = build_index t1 es"
    unfolding es1 build_index_def written_def by (rule indexDirectory_put_entry[OF ne nodir])
  with idx build_index_at_time[of t2 es1 t1]
  have idx2: "build_index t2 es1 = Inr (idx\<lparr>idx_updated := t2\<rparr>)" by simp
  define es2 where "es2 = put_entry ''.index.json'' (written (stringify (idx\<lparr>idx_updated := t2\<rparr>)) t2) es1"
  have w2: "writeFileSync es1 ''.index.json'' (stringify (idx\<lparr>idx_updated := t2\<rparr>)) t2 = Inr es2"
    by (simp add: writeFileSync_def es1 es2_def written_def)
  from memory_update_run[where stringify = stringify and shown = shown, OF idx2 w2] b1 o1
  have "memory_update stringify shown t2 bank1 = (Some (Dir es2), out1)" by simp
  moreover have "map_of es1 ''.index.json'' = Some (written (stringify idx) t1)" by (simp add: es1)
  moreover have "map_of es2 ''.index.json'' = Some (written (stringify (idx\<lparr>idx_updated := t2\<rparr>)) t2)"
    by (simp add: es2_def)
  ultimately show ?thesis using bank idx b1 by blast
qed

theorem index_twice_witness:
  "\<exists>idx es1 es2.
      (\<exists>es. Some (Dir [(''a.md'', File ''# Title'' \<lparr>st_size = 7, st_mtime = ''t0''\<rparr>)]) = Some (Dir es)
            \<and> build_index ''t1'' es = Inr idx)
      \<and> Some (Dir [(''a.md'', File ''# Title'' \<lparr>st_size = 7, st_mtime = ''t0''\<rparr>),
                    (''.index.json'', File ''t1'' \<lparr>st_size = 2, st_mtime = ''t1''\<rparr>)]) = Some (Dir es1)
      \<and> map_of es1 ''.index.json'' = Some (written (idx_updated idx) ''t1'')
      \<and> memory_update idx_updated ''p'' ''t2''
           (Some (Dir [(''a.md'', File ''# Title'' \<lparr>st_size = 7, st_mtime = ''t0''\<rparr>),
                       (''.index.json'', File ''t1'' \<lparr>st_size = 2, st_mtime = ''t1''\<rparr>)]))
         = (Some (Dir es2),
            \<lparr>stdout = [[newline] @ icon_arrows @ '' Updating Memory Bank Index...'' @ [newline]]
                       @ [icon_check @ '' Indexed 1 files'',
                          icon_open_folder @ '' Found 0 categories'',
                          icon_label @ ''  Found 0 unique tags'',
                          [newline] @ icon_disk @ '' Index saved to p'',
                          [newline] @ icon_sparkles @ '' Memory Bank index updated successfully!''],
              stderr = [], exit_code = 0\<rparr>)
      \<and> map_of es2 ''.index.json'' = Some (written (idx_updated (idx\<lparr>idx_updated := ''t2''\<rparr>)) ''t2'')"
proof -
  let ?out = "\<lparr>stdout = [[newline] @ icon_arrows @ '' Updating Memory Bank Index...'' @ [newline]]
                       @ [icon_check @ '' Indexed 1 files'',
                          icon_open_folder @ '' Found 0 categories'',
                          icon_label @ ''  Found 0 unique tags'',
                          [newline] @ icon_disk @ '' Index saved to p'',
                          [newline] @ icon_sparkles @ '' Memory Bank index updated successfully!''],
              stderr = [], exit_code = 0\<rparr>"
  have a: "memory_update idx_updated ''p'' ''t1''
             (Some (Dir [(''a.md'', File ''# Title'' \<lparr>st_size = 7, st_mtime = ''t0''\<rparr>)]))
           = (Some (Dir [(''a.md'', File ''# Title'' \<lparr>st_size = 7, st_mtime = ''t0''\<rparr>),
                         (''.index.json'', File ''t1'' \<lparr>st_size = 2, st_mtime = ''t1''\<rparr>)]), ?out)"
    by code_simp
  have b: "exit_code ?out = 0" by simp
  from index_twice[OF a b, of "''t2''"] show ?thesis .
qed

section \<open>The categories of the index\<close>

lemma obj_set_fresh: "k \<notin> fst ` set xs \<Longrightarrow> obj_set k v xs = xs @ [(k, v)]"
  by (induction xs) auto

lemma obj_set_append: "k \<in> fst ` set xs \<Longrightarrow> obj_set k v (xs @ ys) = obj_set k v xs @ ys"
  by (induction xs) auto

lemma map_of_obj_set [simp]: "map_of (obj_set k v xs) k = Some v"
  by (induction xs) auto

lemma obj_set_twice [simp]: "obj_set k v (obj_set k w xs) = obj_set k v xs"
  by (induction xs) auto

lemma keys_push_to [simp]: "fst ` set (push_to k ps cats) = fst ` set cats"
proof (cases "map_of cats k")
  case None
  then show ?thesis by (simp add: push_to_def)
next
  case (Some v)
  then have "k \<in> fst ` set cats" by (auto dest: map_of_SomeD intro: rev_image_eqI)
  with Some show ?thesis by (auto simp: push_to_def keys_obj_set)
qed

lemma push_to_absent: "k \<notin> fst ` set cats \<Longrightarrow> push_to k ps cats = cats"
  by (simp add: push_to_def map_of_eq_None_iff[THEN iffD2])

lemma push_to_append:
  assumes "k \<notin> fst ` set ys"
  shows "push_to k ps (xs @ ys) = push_to k ps xs @ ys"
proof (cases "map_of xs k")
  case None
  moreover from assms have "map_of ys k = None" by (simp add: map_of_eq_None_iff)
  ultimately show ?thesis by (simp add: push_to_def map_add_def)
next
  case (Some v)
  then have "k \<in> fst ` set xs" by (auto dest: map_of_SomeD intro: rev_image_eqI)
  with Some show ?thesis by (simp add: push_to_def map_add_def obj_set_append)
qed

lemma push_to_twice: "push_to k qs (push_to k ps cats) = push_to k (ps @ qs) cats"
  by (cases "map_of cats k") (simp_all add: push_to_def)

lemma push_to_new:
  "k \<notin> fst ` set cats \<Longrightarrow> push_to k ps (cats @ [(k, [])]) = cats @ [(k, ps)]"
proof -
  assume a: "k \<notin> fst ` set cats"
  then have "map_of cats k = None" by (simp add: map_of_eq_None_iff)
  then have "map_of (cats @ [(k, [])]) k = Some []" by (simp add: map_add_def)
  moreover from a have "obj_set k ps (cats @ [(k, [])]) = cats @ [(k, ps)]"
    by (induction cats) auto
  ultimately show ?thesis by (simp add: push_to_def)
qed

lemma categories_push_push_to:
  "categories_push c p idx = Inr idx' \<Longrightarrow> idx_categories idx' = push_to c [p] (idx_categories idx)"
  by (auto simp: categories_push_def push_to_def split: option.splits if_splits)

lemma categories_index_file:
  assumes "index_file dir name content st category idx = Inr idx'"
  shows "idx_categories idx'
         = (if category \<noteq> [] then push_to category [path_relative (dir @ [name])] (idx_categories idx)
            else idx_categories idx)"
proof -
  define i1 where "i1 = idx\<lparr>idx_files := obj_set (path_relative (dir @ [name]))
                  (file_entry_of name content st category) (idx_files idx)\<rparr>"
  have c1: "idx_categories i1 = idx_categories idx" by (simp add: i1_def)
  from assms have "(case (if category \<noteq> [] then categories_push category (path_relative (dir @ [name])) i1
                          else Inr i1) of
                      Inl e \<Rightarrow> Inl e
                    | Inr idx2 \<Rightarrow> index_tags (md_tags (extractMetadata content))
                                    (path_relative (dir @ [name])) idx2) = Inr idx'"
    unfolding index_file_def Let_def i1_def .
  then obtain idx2 where
    a: "(if category \<noteq> [] then categories_push category (path_relative (dir @ [name])) i1
         else Inr i1) = Inr idx2"
    and b: "index_tags (md_tags (extractMetadata content)) (path_relative (dir @ [name])) idx2 = Inr idx'"
    by (auto split: sum.splits)
  from categories_index_tags[OF b] a c1 show ?thesis
    by (auto split: if_splits dest: categories_push_push_to)
qed

lemma join_with_append:
  "xs \<noteq> [] \<Longrightarrow> ys \<noteq> [] \<Longrightarrow> join_with sep (xs @ ys) = join_with sep xs @ sep @ join_with sep ys"
proof (induction sep xs rule: join_with.induct)
  case (1 sep)
  then show ?case by simp
next
  case (2 sep x)
  then show ?case by (cases ys) auto
next
  case (3 sep x y ys')
  then show ?case by simp
qed

lemma path_relative_append:
  "p \<noteq> [] \<Longrightarrow> q \<noteq> [] \<Longrightarrow> path_relative (p @ q) = path_relative p @ ''/'' @ path_relative q"
  by (simp add: path_relative_def join_with_append)

lemma path_relative_below: "p \<noteq> [] \<Longrightarrow> q \<noteq> [] \<Longrightarrow> path_relative (p @ q) \<noteq> path_relative p"
  by (simp add: path_relative_append)

lemma path_relative_nonempty:
  "p \<noteq> [] \<Longrightarrow> \<forall>n \<in> set p. valid_name n \<Longrightarrow> path_relative p \<noteq> []"
  by (cases p; cases "tl p") (auto simp: path_relative_def valid_name_def)

lemma subCategory_path:
  assumes "\<forall>n \<in> set dir. valid_name n"
  shows "subCategory (path_relative dir) name = path_relative (dir @ [name])"
proof (cases "dir = []")
  case True
  then show ?thesis by (simp add: subCategory_def path_relative_def)
next
  case False
  from path_relative_nonempty[OF False assms] have ne: "path_relative dir \<noteq> []" .
  from path_relative_append[OF False, of "[name]"]
  have "path_relative (dir @ [name]) = path_relative dir @ ''/'' @ name"
    by (simp add: path_relative_def)
  with ne show ?thesis by (simp add: subCategory_def)
qed

lemma split_append_separator: "d \<notin> set x \<Longrightarrow> split d (x @ d # r) = x # split d r"
  by (induction x) auto

lemma path_relative_Cons:
  "path_relative (x # y # ys) = x @ CHR ''/'' # path_relative (y # ys)"
  by (simp add: path_relative_def)

lemma split_path_relative:
  "p \<noteq> [] \<Longrightarrow> \<forall>n \<in> set p. CHR ''/'' \<notin> set n \<Longrightarrow> split (CHR ''/'') (path_relative p) = p"
proof (induction p)
  case Nil
  then show ?case by simp
next
  case (Cons x xs)
  show ?case
  proof (cases xs)
    case Nil
    with Cons.prems show ?thesis by (simp add: path_relative_def split_no_separator)
  next
    case (Cons y ys)
    with Cons.IH Cons.prems have "split (CHR ''/'') (path_relative (y # ys)) = y # ys" by simp
    moreover from Cons.prems have "CHR ''/'' \<notin> set x" by simp
    ultimately show ?thesis
      unfolding Cons path_relative_Cons by (simp add: split_append_separator)
  qed
qed

lemma path_relative_inject:
  assumes "p \<noteq> []" "q \<noteq> []" "\<forall>n \<in> set p. valid_name n" "\<forall>n \<in> set q. valid_name n"
    and "path_relative p = path_relative q"
  shows "p = q"
proof -
  from assms(3) have "\<forall>n \<in> set p. CHR ''/'' \<notin> set n" by (simp add: valid_name_def)
  from split_path_relative[OF assms(1) this] have a: "split (CHR ''/'') (path_relative p) = p" .
  from assms(4) have "\<forall>n \<in> set q. CHR ''/'' \<notin> set n" by (simp add: valid_name_def)
  from split_path_relative[OF assms(2) this] have b: "split (CHR ''/'') (path_relative q) = q" .
  have "p = split (CHR ''/'') (path_relative p)" by (rule a[symmetric])
  also have "\<dots> = split (CHR ''/'') (path_relative q)" by (simp only: assms(5))
  also have "\<dots> = q" by (rule b)
  finally show ?thesis .
qed

lemma category_table_keys:
  "k \<in> fst ` set (category_table d es) \<Longrightarrow> wf_entries es \<Longrightarrow>
   \<exists>q. q \<noteq> [] \<and> k = path_relative (d @ q) \<and> (\<forall>n \<in> set q. valid_name n) \<and> hd q \<in> fst ` set es"
proof (induction d es rule: category_table.induct)
  case (1 dir)
  then show ?case by simp
next
  case (2 dir name sub rest)
  from "2.prems"(2) have wf: "valid_name name" "wf_entries sub" "wf_entries rest" by simp_all
  consider (here) "\<not> startsWith name ''.''" "k = path_relative (dir @ [name])"
    | (below) "\<not> startsWith name ''.''" "k \<in> fst ` set (category_table (dir @ [name]) sub)"
    | (later) "k \<in> fst ` set (category_table dir rest)"
    using "2.prems"(1) by (auto split: if_splits)
  then show ?case
  proof cases
    case here
    with wf(1) show ?thesis by (intro exI[of _ "[name]"]) simp
  next
    case below
    from "2.IH"(1)[OF below(1) below(2) wf(2)] obtain q where
      q: "q \<noteq> []" "k = path_relative ((dir @ [name]) @ q)" "\<forall>n \<in> set q. valid_name n" by blast
    with wf(1) show ?thesis by (intro exI[of _ "name # q"]) simp
  next
    case later
    from "2.IH"(2)[OF later wf(3)] show ?thesis by auto
  qed
next
  case (3 dir name content st rest)
  from "3.prems" have "k \<in> fst ` set (category_table dir rest)" "wf_entries rest" by simp_all
  from "3.IH"[OF this] show ?case by auto
qed

lemma category_table_key_below:
  assumes "k \<in> fst ` set (category_table d es)" and "wf_entries es" and "d \<noteq> []"
  shows "k \<noteq> path_relative d"
proof -
  from category_table_keys[OF assms(1,2)] obtain q where "q \<noteq> []" "k = path_relative (d @ q)"
    by blast
  with assms(3) show ?thesis by (simp add: path_relative_below)
qed

lemma obj_set_same: "map_of xs k = Some v \<Longrightarrow> obj_set k v xs = xs"
  by (induction xs) (auto split: if_splits)

lemma push_to_Nil [simp]: "push_to k [] cats = cats"
  by (cases "map_of cats k") (simp_all add: push_to_def obj_set_same)

lemma indexDirectory_categories:
  assumes "indexDirectory dir es category idx = Inr idx'"
    and "wf_entries es"
    and "\<forall>n \<in> set dir. valid_name n"
    and "category = path_relative dir"
    and "fst ` set (idx_categories idx) \<inter> fst ` set (category_table dir es) = {}"
    and "''__proto__'' \<notin> fst ` set (idx_categories idx)"
  shows "idx_categories idx'
         = (if category = [] then idx_categories idx
            else push_to category (direct_markdown dir es) (idx_categories idx))
           @ listed (category_table dir es)"
  using assms
proof (induction dir es category idx arbitrary: idx' rule: indexDirectory.induct)
  case (1 dir category idx)
  then show ?case by (simp add: direct_markdown_def)
next
  case (2 dir name sub rest category idx)
  note cat = \<open>category = path_relative dir\<close>
  note vd = \<open>\<forall>n \<in> set dir. valid_name n\<close>
  from "2.prems"(2) have wf: "valid_name name" "name \<notin> fst ` set rest" "wf_entries sub" "wf_entries rest"
    by simp_all
  have dm: "direct_markdown dir ((name, Dir sub) # rest) = direct_markdown dir rest"
    by (simp add: direct_markdown_def isDirectory_def)
  show ?case
  proof (cases "startsWith name ''.''")
    case True
    with "2.prems"(1) have ne: "\<not> endsWith name ''.md''"
      and r: "indexDirectory dir rest category idx = Inr idx'"
      by (auto split: if_splits)
    from True "2.prems"(5)
    have fr: "fst ` set (idx_categories idx) \<inter> fst ` set (category_table dir rest) = {}" by simp
    from True have nn: "\<not> \<not> startsWith name ''.''" by simp
    from "2.IH"(3)[OF nn ne r wf(4) vd cat fr "2.prems"(6)] True show ?thesis
      by (simp add: dm)
  next
    case False
    define sc where "sc = path_relative (dir @ [name])"
    define t1 where "t1 = (sc, direct_markdown (dir @ [name]) sub) # category_table (dir @ [name]) sub"
    have sub_cat: "subCategory category name = sc"
      unfolding cat sc_def by (rule subCategory_path[OF vd])
    have table: "category_table dir ((name, Dir sub) # rest) = t1 @ category_table dir rest"
      using False by (simp add: t1_def sc_def)
    from False "2.prems"(1) obtain idx1 where
      a: "indexDirectory (dir @ [name]) sub sc (categories_assign sc idx) = Inr idx1"
      and b: "indexDirectory dir rest category idx1 = Inr idx'"
      by (auto simp: sub_cat split: sum.splits)
    from vd wf(1) have vd': "\<forall>n \<in> set (dir @ [name]). valid_name n" by simp
    from path_relative_nonempty[OF _ vd'] have sc_ne: "sc \<noteq> []" by (simp add: sc_def)
    from "2.prems"(5) have sc_new: "sc \<notin> fst ` set (idx_categories idx)"
      unfolding table by (auto simp: t1_def)
    have sc_not_below: "sc \<notin> fst ` set (category_table (dir @ [name]) sub)"
      using category_table_key_below[OF _ wf(3), of sc "dir @ [name]"] by (auto simp: sc_def)
    let ?cats = "idx_categories idx"
    have cats1: "idx_categories (categories_assign sc idx)
                 = (if sc = ''__proto__'' then ?cats else ?cats @ [(sc, [])])"
      using sc_new by (simp add: categories_assign_def obj_set_fresh)
    have fr1: "fst ` set (idx_categories (categories_assign sc idx))
               \<inter> fst ` set (category_table (dir @ [name]) sub) = {}"
      using "2.prems"(5) sc_not_below unfolding table cats1 by (auto simp: t1_def)
    have np1: "''__proto__'' \<notin> fst ` set (idx_categories (categories_assign sc idx))"
      using "2.prems"(6) unfolding cats1 by auto
    from "2.IH"(1)[OF False a[folded sub_cat] wf(3) vd' _ _ _] fr1 np1 sub_cat
    have "idx_categories idx1
          = push_to sc (direct_markdown (dir @ [name]) sub) (idx_categories (categories_assign sc idx))
            @ listed (category_table (dir @ [name]) sub)"
      using sc_ne by (simp add: sc_def)
    then have cats2: "idx_categories idx1 = ?cats @ listed t1"
      using sc_new "2.prems"(6) unfolding cats1 t1_def
      by (auto simp: push_to_new push_to_absent)
    have disjoint: "fst ` set t1 \<inter> fst ` set (category_table dir rest) = {}"
    proof (rule ccontr)
      assume "fst ` set t1 \<inter> fst ` set (category_table dir rest) \<noteq> {}"
      then obtain k where k1: "k \<in> fst ` set t1" and k2: "k \<in> fst ` set (category_table dir rest)"
        by blast
      from k1 obtain q1 where q1: "k = path_relative (dir @ name # q1)" "\<forall>n \<in> set q1. valid_name n"
      proof (cases "k = sc")
        case True
        then show ?thesis using that[of "[]"] by (simp add: sc_def)
      next
        case False
        with k1 have "k \<in> fst ` set (category_table (dir @ [name]) sub)" by (auto simp: t1_def)
        from category_table_keys[OF this wf(3)] show ?thesis using that by auto
      qed
      from category_table_keys[OF k2 wf(4)] obtain q2 where
        q2: "q2 \<noteq> []" "k = path_relative (dir @ q2)" "\<forall>n \<in> set q2. valid_name n"
        "hd q2 \<in> fst ` set rest" by blast
      have "dir @ name # q1 = dir @ q2"
      proof (rule path_relative_inject)
        show "path_relative (dir @ name # q1) = path_relative (dir @ q2)" using q1(1) q2(2) by simp
      qed (use vd wf(1) q1(2) q2(1,3) in auto)
      then have "hd q2 = name" using q2(1) by (cases q2) auto
      with q2(4) wf(2) show False by simp
    qed
    have fr2: "fst ` set (idx_categories idx1) \<inter> fst ` set (category_table dir rest) = {}"
      using "2.prems"(5) disjoint unfolding cats2 table by auto
    have np2: "''__proto__'' \<notin> fst ` set (idx_categories idx1)"
      using "2.prems"(6) unfolding cats2 by auto
    from "2.IH"(2)[OF False a[folded sub_cat] b wf(4) vd cat fr2 np2]
    have res: "idx_categories idx'
          = (if category = [] then ?cats @ listed t1
             else push_to category (direct_markdown dir rest) (?cats @ listed t1))
            @ listed (category_table dir rest)"
      by (simp add: cats2)
    have lt: "listed (category_table dir ((name, Dir sub) # rest))
              = listed t1 @ listed (category_table dir rest)"
      unfolding table by simp
    show ?thesis
    proof (cases "category = []")
      case True
      with res show ?thesis unfolding lt by simp
    next
      case cne: False
      with cat have dne: "dir \<noteq> []" by (auto simp: path_relative_def)
      have "category \<notin> fst ` set t1"
      proof
        assume "category \<in> fst ` set t1"
        then consider "category = sc" | "category \<in> fst ` set (category_table (dir @ [name]) sub)"
          by (auto simp: t1_def)
        then show False
        proof cases
          case 1
          with cat dne show False by (simp add: sc_def path_relative_below)
        next
          case 2
          from category_table_keys[OF this wf(3)] obtain q where "q \<noteq> []"
            "category = path_relative ((dir @ [name]) @ q)" by blast
          with cat dne path_relative_below[of dir "name # q"] show False by simp
        qed
      qed
      then have "category \<notin> fst ` set (listed t1)" by auto
      from push_to_append[OF this] res cne show ?thesis unfolding lt dm by simp
    qed
  qed
next
  case (3 dir name content st rest category idx)
  note cat = \<open>category = path_relative dir\<close>
  note vd = \<open>\<forall>n \<in> set dir. valid_name n\<close>
  from "3.prems"(2) have wf: "wf_entries rest" by simp
  from "3.prems"(5) have fr: "fst ` set (idx_categories idx) \<inter> fst ` set (category_table dir rest) = {}"
    by simp
  show ?case
  proof (cases "endsWith name ''.md''")
    case False
    with "3.prems"(1) have r: "indexDirectory dir rest category idx = Inr idx'" by simp
    from "3.IH"(2)[OF False r wf vd cat fr "3.prems"(6)] False show ?thesis
      by (simp add: direct_markdown_def)
  next
    case True
    with "3.prems"(1) obtain idx1 where
      a: "index_file dir name content st category idx = Inr idx1"
      and b: "indexDirectory dir rest category idx1 = Inr idx'"
      by (auto split: sum.splits)
    note c1 = categories_index_file[OF a]
    have fr1: "fst ` set (idx_categories idx1) \<inter> fst ` set (category_table dir rest) = {}"
      using fr unfolding c1 by simp
    have np1: "''__proto__'' \<notin> fst ` set (idx_categories idx1)"
      using "3.prems"(6) unfolding c1 by simp
    have dm: "direct_markdown dir ((name, File content st) # rest)
              = path_relative (dir @ [name]) # direct_markdown dir rest"
      using True by (simp add: direct_markdown_def isDirectory_def)
    from "3.IH"(1)[OF True a b wf vd cat fr1 np1] show ?thesis
      unfolding c1 dm by (simp add: push_to_twice)
  qed
qed

text \<open>
  C4 (as the code has it). When the indexer succeeds on a well-formed memory bank, the
  \<^verbatim>\<open>categories\<close> object has exactly one key for every directory the traversal enters, at any
  depth (the directories that do not lie below a hidden directory and are not hidden): the key is
  the directory's relative path and its value lists the relative paths of the Markdown files
  directly inside that directory, in the order of the listing; files of a nested directory are
  listed under the nested directory's key only. No other keys appear, and a directory named
  \<^verbatim>\<open>__proto__\<close> at the root gets no key.
\<close>

theorem categories_of_index:
  assumes "wf_entries es" and "build_index now es = Inr idx"
  shows "idx_categories idx = filter (\<lambda>kp. fst kp \<noteq> ''__proto__'') (category_table [] es)"
  using indexDirectory_categories[OF assms(2)[unfolded build_index_def] assms(1), of ]
  by (simp add: empty_index_def path_relative_def)

theorem categories_of_index_witness:
  "[(''a'', [''a/x.md'']), (''a/b'', [''a/b/y.md''])]
   = filter (\<lambda>kp. fst kp \<noteq> ''__proto__'')
       (category_table []
          [(''a'', Dir [(''x.md'', File ''one'' \<lparr>st_size = 3, st_mtime = ''t0''\<rparr>),
                        (''b'', Dir [(''y.md'', File ''two'' \<lparr>st_size = 3, st_mtime = ''t0''\<rparr>)])])])"
proof -
  let ?es = "[(''a'', Dir [(''x.md'', File ''one'' \<lparr>st_size = 3, st_mtime = ''t0''\<rparr>),
                           (''b'', Dir [(''y.md'', File ''two'' \<lparr>st_size = 3, st_mtime = ''t0''\<rparr>)])])]"
  let ?idx = "\<lparr>idx_updated = ''t'',
      idx_files = [(''a/x.md'', \<lparr>fe_category = ''a'', fe_size = 3, fe_modified = ''t0'',
                      fe_title = ''x'', fe_tags = [], fe_summary = ''one''\<rparr>),
                   (''a/b/y.md'', \<lparr>fe_category = ''a/b'', fe_size = 3, fe_modified = ''t0'',
                      fe_title = ''y'', fe_tags = [], fe_summary = ''two''\<rparr>)],
      idx_categories = [(''a'', [''a/x.md'']), (''a/b'', [''a/b/y.md''])],
      idx_tags = [], idx_categories_proto = None\<rparr>"
  have wf: "wf_entries ?es" by (simp add: valid_name_def)
  have run: "build_index ''t'' ?es = Inr ?idx" by code_simp
  from categories_of_index[OF wf run] show ?thesis by simp
qed

text \<open>The file \<^verbatim>\<open>a/b/y.md\<close> lies under the top-level directory \<^verbatim>\<open>a\<close>, but it is listed under the
  key \<^verbatim>\<open>a/b\<close>, which names no top-level directory, and not under \<^verbatim>\<open>a\<close>.\<close>

theorem nested_category_counterexample:
  "map_sum id idx_categories
     (build_index ''t''
        [(''a'', Dir [(''x.md'', File ''one'' \<lparr>st_size = 3, st_mtime = ''t0''\<rparr>),
                      (''b'', Dir [(''y.md'', File ''two'' \<lparr>st_size = 3, st_mtime = ''t0''\<rparr>)])])])
   = Inr [(''a'', [''a/x.md'']), (''a/b'', [''a/b/y.md''])]"
  by code_simp

section \<open>Substitution of the project name\<close>

lemma backslash_syntax: "backslash \<in> set regexp_syntax_chars"
  by (simp add: regexp_syntax_chars_def)

lemma regexp_literal_plain:
  "c \<notin> set regexp_syntax_chars \<Longrightarrow> regexp_literal (c # rest) = map_option ((#) c) (regexp_literal rest)"
  using backslash_syntax by (cases rest) auto

lemma regexp_literal_escaped:
  "c \<in> set regexp_syntax_chars \<Longrightarrow>
   regexp_literal (backslash # c # rest) = map_option ((#) c) (regexp_literal rest)"
  by simp

lemma regexp_literal_escapeRegExp: "regexp_literal (escapeRegExp p) = Some p"
proof (induction p)
  case Nil
  then show ?case by (simp add: escapeRegExp_def)
next
  case (Cons c cs)
  have step: "escapeRegExp (c # cs)
              = (if c \<in> set regexp_syntax_chars then [backslash, c] else [c]) @ escapeRegExp cs"
    by (simp add: escapeRegExp_def)
  show ?case
  proof (cases "c \<in> set regexp_syntax_chars")
    case True
    then show ?thesis unfolding step using Cons.IH by (simp add: regexp_literal_escaped del: regexp_literal.simps)
  next
    case False
    then show ?thesis unfolding step using Cons.IH by (simp add: regexp_literal_plain del: regexp_literal.simps)
  qed
qed

lemma replace_placeholder_literal:
  "replace_placeholder placeholder value content = replace_all placeholder value [] content"
  by (simp add: replace_placeholder_def regexp_literal_escapeRegExp)

lemma substitution_plain:
  "CHR ''$'' \<notin> set v \<Longrightarrow> substitution v matched passed following = v"
  by (induction v matched passed following rule: substitution.induct) auto

lemma join_with_Cons_head:
  "join_with sep ((c # g) # gs) = c # join_with sep (g # gs)"
  by (cases gs) auto

lemma join_with_Nil_head: "gs \<noteq> [] \<Longrightarrow> join_with sep ([] # gs) = sep @ join_with sep gs"
  by (cases gs) auto

lemma prefix_join_with_head: "prefix g (join_with sep (g # gs))"
  by (cases gs) auto

lemma replace_all_gaps:
  assumes "lit \<noteq> []" and "CHR ''$'' \<notin> set v"
  shows "\<exists>gaps. gaps \<noteq> [] \<and> rest = join_with lit gaps
           \<and> replace_all lit v passed rest = join_with v gaps
           \<and> (\<forall>g \<in> set gaps. \<not> sublist lit g)"
  using assms
proof (induction lit v passed rest rule: replace_all.induct)
  case (1 lit v passed)
  then show ?case by (intro exI[of _ "[[]]"]) simp
next
  case (2 lit v passed c cs)
  show ?case
  proof (cases "prefix lit (c # cs)")
    case True
    from "2.IH"(2)[OF "2.prems"(1) True "2.prems"] obtain gaps where
      g: "gaps \<noteq> []" "drop (length lit) (c # cs) = join_with lit gaps"
      "replace_all lit v (passed @ lit) (drop (length lit) (c # cs)) = join_with v gaps"
      "\<forall>g \<in> set gaps. \<not> sublist lit g" by blast
    from True have "c # cs = lit @ drop (length lit) (c # cs)"
      by (metis append_eq_conv_conj prefix_def)
    with g(2) have a: "c # cs = join_with lit ([] # gaps)"
      by (simp add: join_with_Nil_head[OF g(1)])
    from True "2.prems" g(3)
    have b: "replace_all lit v passed (c # cs) = join_with v ([] # gaps)"
      by (simp add: substitution_plain join_with_Nil_head[OF g(1)])
    from g(1,4) "2.prems"(1) a b show ?thesis by (intro exI[of _ "[] # gaps"]) simp
  next
    case False
    from "2.IH"(3)[OF "2.prems"(1) False "2.prems"] obtain gaps where
      g: "gaps \<noteq> []" "cs = join_with lit gaps"
      "replace_all lit v (passed @ [c]) cs = join_with v gaps"
      "\<forall>g \<in> set gaps. \<not> sublist lit g" by blast
    from g(1) obtain g1 gs where gaps: "gaps = g1 # gs" by (cases gaps) auto
    have a: "c # cs = join_with lit ((c # g1) # gs)"
      by (simp add: join_with_Cons_head g(2) gaps)
    from False "2.prems"(1) g(3)
    have b: "replace_all lit v passed (c # cs) = join_with v ((c # g1) # gs)"
      by (simp add: join_with_Cons_head gaps)
    have "\<not> sublist lit (c # g1)"
    proof
      assume "sublist lit (c # g1)"
      then consider "prefix lit (c # g1)" | "sublist lit g1" by (auto simp: sublist_Cons_right)
      then show False
      proof cases
        case 1
        moreover have "prefix (c # g1) (c # cs)"
          unfolding g(2) gaps using prefix_join_with_head[of g1 lit gs] by simp
        ultimately have "prefix lit (c # cs)" by (rule prefix_order.trans)
        with False show False ..
      next
        case 2
        with g(4) gaps show False by simp
      qed
    qed
    with g(4) gaps a b show ?thesis by (intro exI[of _ "(c # g1) # gs"]) simp
  qed
qed

lemma sublist_glue_foreign:
  assumes "\<not> sublist lit g" and "\<not> sublist lit r" and "v \<noteq> []"
    and "hd lit \<notin> set v" and "last lit \<notin> set v" and "\<not> sublist v lit"
  shows "\<not> sublist lit (g @ v @ r)"
proof
  from assms(1) have ne: "lit \<noteq> []" by auto
  assume "sublist lit (g @ v @ r)"
  then consider "sublist lit g" | "sublist lit (v @ r)"
    | t1 t2 where "lit = t1 @ t2" "suffix t1 g" "prefix t2 (v @ r)" "t1 \<noteq> []" "t2 \<noteq> []"
    unfolding sublist_append[of lit g] by (metis append_Nil2 append_self_conv2 prefix_imp_sublist suffix_imp_sublist)
  then show False
  proof cases
    case 1
    with assms(1) show False ..
  next
    case 2
    then consider "sublist lit v" | "sublist lit r"
      | t1 t2 where "lit = t1 @ t2" "suffix t1 v" "prefix t2 r" "t1 \<noteq> []" "t2 \<noteq> []"
      unfolding sublist_append[of lit v] by (metis append_Nil2 append_self_conv2 prefix_imp_sublist suffix_imp_sublist)
    then show False
    proof cases
      case 1
      then have "set lit \<subseteq> set v" by (rule set_mono_sublist)
      with ne assms(4) show False by (cases lit) auto
    next
      case 2
      with assms(2) show False ..
    next
      case 3
      from 3(2) have "set t1 \<subseteq> set v" by (rule set_mono_suffix)
      with 3(1,4) assms(4) show False by (cases t1) auto
    qed
  next
    case 3
    from 3(3) consider "prefix t2 v" | us where "t2 = v @ us" by (auto simp: prefix_append)
    then show False
    proof cases
      case 1
      then have "set t2 \<subseteq> set v" by (rule set_mono_prefix)
      moreover from 3(1,5) have "last lit = last t2" by simp
      moreover from 3(5) have "last t2 \<in> set t2" by simp
      ultimately show False using assms(5) by auto
    next
      case 2
      with 3(1) have "lit = t1 @ v @ us" by simp
      then have "sublist v lit" unfolding sublist_def by blast
      with assms(6) show False ..
    qed
  qed
qed

lemma join_with_foreign:
  assumes "\<forall>g \<in> set gaps. \<not> sublist lit g" and "lit \<noteq> []" and "foreign_to lit v"
  shows "\<not> sublist lit (join_with v gaps)"
  using assms(1)
proof (induction gaps rule: induct_list012)
  case 1
  with assms(2) show ?case by simp
next
  case (2 x)
  then show ?case by simp
next
  case (3 x y zs)
  from "3.prems" have "\<not> sublist lit x" "\<not> sublist lit (join_with v (y # zs))"
    using "3.IH"(2) by simp_all
  from sublist_glue_foreign[OF this] assms(3) show ?case by (simp add: foreign_to_def)
qed

lemma sublist_join_with: "g \<in> set gaps \<Longrightarrow> sublist g (join_with sep gaps)"
proof (induction gaps rule: induct_list012)
  case 1
  then show ?case by simp
next
  case (2 x)
  then show ?case by simp
next
  case (3 x y zs)
  show ?case
  proof (cases "g = x")
    case True
    then show ?thesis by (simp add: sublist_append)
  next
    case False
    with "3.prems" have "sublist g (join_with sep (y # zs))" using "3.IH"(2) by simp
    then show ?thesis by (simp add: sublist_append)
  qed
qed

lemma replace_all_replaced_everywhere:
  assumes "lit \<noteq> []" and "foreign_to lit v"
  shows "replaced_everywhere lit v content (replace_all lit v [] content)"
proof -
  from assms(2) have d: "CHR ''$'' \<notin> set v" by (simp add: foreign_to_def)
  from replace_all_gaps[OF assms(1) d, of content "[]"] obtain gaps where
    g: "content = join_with lit gaps" "replace_all lit v [] content = join_with v gaps"
    "\<forall>g \<in> set gaps. \<not> sublist lit g" by blast
  from join_with_foreign[OF g(3) assms] g show ?thesis
    unfolding replaced_everywhere_def by auto
qed

lemma project_name_replaced:
  "replaced_everywhere ''[PROJECT_NAME]'' ''Foo'' content
     (replace_placeholder ''[PROJECT_NAME]'' ''Foo'' content)"
proof -
  have "foreign_to ''[PROJECT_NAME]'' ''Foo''" by code_simp
  from replace_all_replaced_everywhere[OF _ this, of content] show ?thesis
    by (simp add: replace_placeholder_literal)
qed

lemma replace_placeholder_foreign:
  assumes "\<not> sublist token content" and "foreign_to token v" and "p \<noteq> []"
  shows "\<not> sublist token (replace_placeholder p v content)"
proof -
  from assms(2) have d: "CHR ''$'' \<notin> set v" by (simp add: foreign_to_def)
  from replace_all_gaps[OF assms(3) d, of content "[]"] obtain gaps where
    g: "content = join_with p gaps" "replace_all p v [] content = join_with v gaps" by blast
  have "\<forall>g \<in> set gaps. \<not> sublist token g"
  proof
    fix x assume "x \<in> set gaps"
    then have "sublist x content" unfolding g(1) by (rule sublist_join_with)
    with assms(1) show "\<not> sublist token x" by (meson sublist_order.order_trans)
  qed
  moreover from assms(1) have "token \<noteq> []" by auto
  ultimately have "\<not> sublist token (join_with v gaps)" using assms(2) by (rule join_with_foreign)
  with g(2) show ?thesis by (simp add: replace_placeholder_literal)
qed

lemma replace_placeholders_foreign:
  assumes "\<forall>(p, v) \<in> set rs. p \<noteq> [] \<and> foreign_to token v"
  shows "\<not> sublist token content \<Longrightarrow> \<not> sublist token (replace_placeholders rs content)"
  using assms
proof (induction rs arbitrary: content)
  case Nil
  then show ?case by simp
next
  case (Cons r rs)
  obtain p v where r: "r = (p, v)" by (cases r)
  with Cons.prems have "\<not> sublist token content" "foreign_to token v" "p \<noteq> []" by auto
  then have "\<not> sublist token (replace_placeholder p v content)"
    by (rule replace_placeholder_foreign)
  with Cons.IH Cons.prems(2) r show ?case by simp
qed

lemma files_of_replaceInDirectory:
  "files_of dir (replaceInDirectory es rs now)
   = map (\<lambda>(p, content). (p, if endsWith (last p) ''.md'' \<or> endsWith (last p) ''.json''
                                then replace_placeholders rs content else content))
       (files_of dir es)"
  by (induction dir es rule: files_of.induct) (auto simp: written_def)

lemma put_entry_fresh: "name \<notin> fst ` set d \<Longrightarrow> put_entry name n d = d @ [(name, n)]"
  by (induction d) auto

lemma copy_entries_fresh:
  "wf_entries es \<Longrightarrow> fst ` set d \<inter> fst ` set es = {} \<Longrightarrow>
   \<exists>copied. copy_entries es d now = Inr (d @ copied) \<and> map fst copied = map fst es
            \<and> (\<forall>dir. files_of dir copied = files_of dir es)"
proof (induction es arbitrary: d rule: wf_entries.induct)
  case 1
  then show ?case by simp
next
  case (2 name content st rest)
  from "2.prems" have fresh: "name \<notin> fst ` set d" and wf: "wf_entries rest"
    and "name \<notin> fst ` set rest" and "fst ` set d \<inter> fst ` set rest = {}" by auto
  then have "fst ` set (d @ [(name, File content (st\<lparr>st_mtime := now\<rparr>))]) \<inter> fst ` set rest = {}"
    by auto
  from "2.IH"[OF wf this] obtain copied where
    c: "copy_entries rest (d @ [(name, File content (st\<lparr>st_mtime := now\<rparr>))]) now
        = Inr ((d @ [(name, File content (st\<lparr>st_mtime := now\<rparr>))]) @ copied)"
    "map fst copied = map fst rest" "\<forall>dir. files_of dir copied = files_of dir rest" by blast
  from fresh have "map_of d name = None" by (simp add: map_of_eq_None_iff)
  with c(1) fresh have "copy_entries ((name, File content st) # rest) d now
        = Inr (d @ (name, File content (st\<lparr>st_mtime := now\<rparr>)) # copied)"
    by (simp add: put_entry_fresh)
  with c(2,3) show ?case
    by (intro exI[of _ "(name, File content (st\<lparr>st_mtime := now\<rparr>)) # copied"]) simp
next
  case (3 name sub rest)
  from "3.prems" have fresh: "name \<notin> fst ` set d" and wf: "wf_entries sub" "wf_entries rest"
    and nr: "name \<notin> fst ` set rest" and dr: "fst ` set d \<inter> fst ` set rest = {}" by auto
  from "3.IH"(1)[OF wf(1), of "[]"] obtain csub where
    s: "copy_entries sub [] now = Inr csub" "map fst csub = map fst sub"
    "\<forall>dir. files_of dir csub = files_of dir sub" by auto
  from nr dr have "fst ` set (d @ [(name, Dir csub)]) \<inter> fst ` set rest = {}" by auto
  from "3.IH"(2)[OF wf(2) this] obtain copied where
    c: "copy_entries rest (d @ [(name, Dir csub)]) now = Inr ((d @ [(name, Dir csub)]) @ copied)"
    "map fst copied = map fst rest" "\<forall>dir. files_of dir copied = files_of dir rest" by blast
  from fresh have "map_of d name = None" by (simp add: map_of_eq_None_iff)
  with s(1) c(1) fresh have "copy_entries ((name, Dir sub) # rest) d now
        = Inr (d @ (name, Dir csub) # copied)"
    by (simp add: put_entry_fresh mkdirSync_recursive_def)
  with c(2,3) s(3) show ?case
    by (intro exI[of _ "(name, Dir csub) # copied"]) simp
qed

lemma copyDirectory_fresh:
  assumes "wf_entries template"
  shows "\<exists>copied. copyDirectory template None now = Inr copied
           \<and> (\<forall>dir. files_of dir copied = files_of dir template)"
  using copy_entries_fresh[OF assms, of "[]" now] by (auto simp: mkdirSync_recursive_def)

lemma map_of_put_entry_other: "k' \<noteq> k \<Longrightarrow> map_of (put_entry k v es) k' = map_of es k'"
  by (induction es) auto

lemma map_of_rmSync: "map_of (rmSync k fs) k' = (if k' = k then None else map_of fs k')"
  by (induction fs) (auto simp: rmSync_def)

lemma files_of_put_file_filter:
  assumes "\<forall>sub. map_of es a \<noteq> Some (Dir sub)"
  shows "filter (\<lambda>(p, c). p \<noteq> dir @ [a]) (files_of dir (put_entry a (File t st) es))
       = filter (\<lambda>(p, c). p \<noteq> dir @ [a]) (files_of dir es)"
  using assms
proof (induction es)
  case Nil
  show ?case by simp
next
  case (Cons e es)
  obtain n x where e: "e = (n, x)" by (cases e)
  show ?case
  proof (cases "n = a")
    case True
    with Cons.prems e obtain c s where "x = File c s" by (cases x) auto
    with True e show ?thesis by simp
  next
    case False
    with Cons.prems e have "\<forall>sub. map_of es a \<noteq> Some (Dir sub)" by simp
    from Cons.IH[OF this] False e show ?thesis by (cases x) simp_all
  qed
qed

lemma files_of_put_dir_filter:
  assumes "map_of es k = Some (Dir sub)"
    and "filter P (files_of (dir @ [k]) sub') = filter P (files_of (dir @ [k]) sub)"
  shows "filter P (files_of dir (put_entry k (Dir sub') es)) = filter P (files_of dir es)"
  using assms(1)
proof (induction es)
  case Nil
  then show ?case by simp
next
  case (Cons e es)
  obtain n x where e: "e = (n, x)" by (cases e)
  show ?case
  proof (cases "n = k")
    case True
    with Cons.prems e have "x = Dir sub" by simp
    with True e assms(2) show ?thesis by simp
  next
    case False
    with Cons.prems e have "map_of es k = Some (Dir sub)" by simp
    from Cons.IH[OF this] False e show ?thesis by (cases x) simp_all
  qed
qed

lemma files_of_put_file_subset:
  "set (files_of dir (put_entry a (File t st) es)) \<subseteq> insert (dir @ [a], t) (set (files_of dir es))"
proof (induction es)
  case Nil
  show ?case by simp
next
  case (Cons e es)
  obtain n x where e: "e = (n, x)" by (cases e)
  from Cons.IH e show ?case by (cases x) auto
qed

lemma files_of_put_dir_subset:
  "set (files_of dir (put_entry k (Dir sub') es))
   \<subseteq> set (files_of dir es) \<union> set (files_of (dir @ [k]) sub')"
proof (induction es)
  case Nil
  show ?case by simp
next
  case (Cons e es)
  obtain n x where e: "e = (n, x)" by (cases e)
  from Cons.IH e show ?case by (cases x) auto
qed

lemma files_of_subdirectory:
  "map_of es k = Some (Dir sub) \<Longrightarrow> set (files_of (dir @ [k]) sub) \<subseteq> set (files_of dir es)"
proof (induction es)
  case Nil
  then show ?case by simp
next
  case (Cons e es)
  obtain n x where e: "e = (n, x)" by (cases e)
  from Cons e show ?case by (cases x) (auto split: if_splits)
qed

lemma files_of_put_file_mem: "(dir @ [a], t) \<in> set (files_of dir (put_entry a (File t st) es))"
proof (induction es)
  case Nil
  show ?case by simp
next
  case (Cons e es)
  obtain n x where e: "e = (n, x)" by (cases e)
  from Cons.IH e show ?case by (cases x) auto
qed

lemma files_of_put_dir_mem:
  "set (files_of (dir @ [k]) sub') \<subseteq> set (files_of dir (put_entry k (Dir sub') es))"
proof (induction es)
  case Nil
  show ?case by simp
next
  case (Cons e es)
  obtain n x where e: "e = (n, x)" by (cases e)
  from Cons.IH e show ?case by (cases x) auto
qed

lemma write_active_context_files:
  assumes "write_active_context rbank body now = Inr bank"
  shows "filter (\<lambda>(p, c). p \<noteq> [''context'', ''active.md'']) (files_of [] bank)
         = filter (\<lambda>(p, c). p \<noteq> [''context'', ''active.md'']) (files_of [] rbank)"
    and "([''context'', ''active.md''], body) \<in> set (files_of [] bank)"
    and "set (files_of [] bank) \<subseteq> insert ([''context'', ''active.md''], body) (set (files_of [] rbank))"
proof -
  from assms obtain ctx where
    ctx: "map_of rbank ''context'' = Some (Dir ctx)"
    and nodir: "\<forall>sub. map_of ctx ''active.md'' \<noteq> Some (Dir sub)"
    and bank: "bank = put_entry ''context''
                 (Dir (put_entry ''active.md'' (File body \<lparr>st_size = utf8_length body, st_mtime = now\<rparr>) ctx)) rbank"
    by (auto simp: write_active_context_def writeFileSync_def written_def
          split: option.splits node.splits sum.splits)
  let ?st = "\<lparr>st_size = utf8_length body, st_mtime = now\<rparr>"
  let ?ctx' = "put_entry ''active.md'' (File body ?st) ctx"
  from files_of_put_file_filter[OF nodir, of "[''context'']" body ?st]
  have "filter (\<lambda>(p, c). p \<noteq> [''context'', ''active.md'']) (files_of ([] @ [''context'']) ?ctx')
        = filter (\<lambda>(p, c). p \<noteq> [''context'', ''active.md'']) (files_of ([] @ [''context'']) ctx)"
    by simp
  from files_of_put_dir_filter[OF ctx this]
  show "filter (\<lambda>(p, c). p \<noteq> [''context'', ''active.md'']) (files_of [] bank)
         = filter (\<lambda>(p, c). p \<noteq> [''context'', ''active.md'']) (files_of [] rbank)"
    unfolding bank .
  from files_of_put_file_mem[of "[''context'']" "''active.md''" body ?st ctx]
    files_of_put_dir_mem[of "[]" "''context''" ?ctx' rbank]
  show "([''context'', ''active.md''], body) \<in> set (files_of [] bank)"
    unfolding bank by auto
  from files_of_put_dir_subset[of "[]" "''context''" ?ctx' rbank]
    files_of_put_file_subset[of "[''context'']" "''active.md''" body ?st ctx]
    files_of_subdirectory[OF ctx, of "[]"]
  show "set (files_of [] bank) \<subseteq> insert ([''context'', ''active.md''], body) (set (files_of [] rbank))"
    unfolding bank by auto
qed

lemma update_package_json_other:
  "update_package_json env fs = Inr fs' \<Longrightarrow> k \<noteq> ''package.json'' \<Longrightarrow> map_of fs' k = map_of fs k"
  by (auto simp: update_package_json_def writeFileSync_def map_of_put_entry_other
        split: option.splits node.splits sum.splits)

lemma write_search_script_other:
  "write_search_script env fs = Inr fs' \<Longrightarrow> k \<noteq> ''scripts'' \<Longrightarrow> map_of fs' k = map_of fs k"
  by (auto simp: write_search_script_def writeFileSync_def map_of_put_entry_other
        split: option.splits node.splits sum.splits)

lemma scaffold_bank:
  assumes "map_of fs ''memory-bank-template'' = Some (Dir template)" and "wf_entries template"
    and "map_of fs ''memory-bank'' = None"
    and "scaffold env fs n d a f l = Inr fs'"
  shows "\<exists>copied bank. files_of [] copied = files_of [] template
           \<and> write_active_context
                (replaceInDirectory copied (replacements n d a f l (env_date env)) (env_now env))
                (activeContext (env_date env) a f l) (env_now env) = Inr bank
           \<and> map_of fs' ''memory-bank'' = Some (Dir bank)"
proof -
  from copyDirectory_fresh[OF assms(2), of "env_now env"] obtain copied where
    c: "copyDirectory template None (env_now env) = Inr copied"
    "files_of [] copied = files_of [] template" by auto
  from assms(1,3,4) c(1) obtain bank fs1 where
    b: "write_active_context
          (replaceInDirectory copied (replacements n d a f l (env_date env)) (env_now env))
          (activeContext (env_date env) a f l) (env_now env) = Inr bank"
    and p: "update_package_json env (put_entry ''memory-bank'' (Dir bank) fs) = Inr fs1"
    and s: "write_search_script env fs1 = Inr fs'"
    by (auto simp: scaffold_def readdirSync_def split: sum.splits)
  have "map_of fs' ''memory-bank'' = map_of fs1 ''memory-bank''"
    by (rule write_search_script_other[OF s]) simp
  also have "\<dots> = map_of (put_entry ''memory-bank'' (Dir bank) fs) ''memory-bank''"
    by (rule update_package_json_other[OF p]) simp
  finally have "map_of fs' ''memory-bank'' = Some (Dir bank)" by simp
  with c(2) b show ?thesis by blast
qed

lemma initMemoryBank_scaffold:
  assumes "map_of fs ''memory-bank'' = None
           \<or> (\<exists>overwrite unread. others = overwrite # unread \<and> toLowerCase overwrite = ''y'')"
    and "initMemoryBank env fs (n # d # a # f # l # others) = Inr (fs', out)"
  shows "\<exists>fs0. scaffold env fs0 n d a f l = Inr fs' \<and> map_of fs0 ''memory-bank'' = None
           \<and> map_of fs0 ''memory-bank-template'' = map_of fs ''memory-bank-template''"
proof (cases "map_of fs ''memory-bank'' = None")
  case True
  with assms(2) have "scaffold env fs n d a f l = Inr fs'"
    by (auto simp: initMemoryBank_def split: sum.splits)
  with True show ?thesis by blast
next
  case False
  with assms(1) obtain overwrite unread where
    o: "others = overwrite # unread" "toLowerCase overwrite = ''y''" by blast
  with False assms(2) have "scaffold env (rmSync ''memory-bank'' fs) n d a f l = Inr fs'"
    by (auto simp: initMemoryBank_def split: sum.splits)
  then show ?thesis by (intro exI[of _ "rmSync ''memory-bank'' fs"]) (simp add: map_of_rmSync)
qed

lemma activeContext_no_bracket:
  assumes "CHR ''['' \<notin> set date" "CHR ''['' \<notin> set a" "CHR ''['' \<notin> set f" "CHR ''['' \<notin> set l"
  shows "CHR ''['' \<notin> set (activeContext date a f l)"
  using assms by (simp add: activeContext_def newline_def)

lemma replacements_Foo:
  "replacements ''Foo'' d a f l date
   = (''[PROJECT_NAME]'', ''Foo'') # tl (replacements ''Foo'' d a f l date)"
  by (simp add: replacements_def)

lemma later_placeholders: "\<forall>(p, v) \<in> set (tl (replacements n d a f l date)). p \<noteq> []"
  by (simp add: replacements_def)

lemma later_values:
  "{a, f, l, date} \<subseteq> snd ` set (tl (replacements n d a f l date))"
  by (simp add: replacements_def)

text \<open>
  C6 (as the code has it). Take a run of the scaffolder with the project name \<^verbatim>\<open>Foo\<close> that
  copies a well-formed template (the target is absent, or the overwrite question is answered
  \<^verbatim>\<open>y\<close>) and ends without an exception. Then \<^verbatim>\<open>memory-bank\<close> holds the files of the template,
  in their order, beside \<^verbatim>\<open>context/active.md\<close>, which the scaffolder writes itself. A file whose
  name ends in \<^verbatim>\<open>.md\<close> or \<^verbatim>\<open>.json\<close> has the content of the template in which, first, every
  occurrence of \<^verbatim>\<open>[PROJECT_NAME]\<close> was replaced by exactly \<^verbatim>\<open>Foo\<close>, leaving none, and then the nine
  other placeholders were replaced in turn; every other file has the content of the template,
  token included. When none of the nine other values can bring the token back
  (\<^const>\<open>foreign_to\<close>), no file of \<^verbatim>\<open>memory-bank\<close> whose name ends in \<^verbatim>\<open>.md\<close> or \<^verbatim>\<open>.json\<close> holds the
  token. (\<^verbatim>\<open>escapeRegExp\<close> makes each pattern match its placeholder literally,
  \<open>regexp_literal_escapeRegExp\<close>.)
\<close>

theorem placeholder_substitution:
  assumes "map_of fs ''memory-bank-template'' = Some (Dir template)" and "wf_entries template"
    and "map_of fs ''memory-bank'' = None
         \<or> (\<exists>overwrite unread. others = overwrite # unread \<and> toLowerCase overwrite = ''y'')"
    and "initMemoryBank env fs (''Foo'' # description # architecture # framework # language # others)
         = Inr (fs', out)"
  shows "\<exists>bank. map_of fs' ''memory-bank'' = Some (Dir bank)
       \<and> list_all2 (\<lambda>(p, content) (p', content'). p' = p \<and>
             (if endsWith (last p) ''.md'' \<or> endsWith (last p) ''.json''
              then \<exists>content1. replaced_everywhere ''[PROJECT_NAME]'' ''Foo'' content content1
                     \<and> content' = replace_placeholders
                          (tl (replacements ''Foo'' description architecture framework language (env_date env)))
                          content1
              else content' = content))
           (filter (\<lambda>(p, c). p \<noteq> [''context'', ''active.md'']) (files_of [] template))
           (filter (\<lambda>(p, c). p \<noteq> [''context'', ''active.md'']) (files_of [] bank))
       \<and> ([''context'', ''active.md''], activeContext (env_date env) architecture framework language)
           \<in> set (files_of [] bank)
       \<and> ((\<forall>v \<in> snd ` set (tl (replacements ''Foo'' description architecture framework language (env_date env))).
              foreign_to ''[PROJECT_NAME]'' v)
           \<longrightarrow> (\<forall>(p, c) \<in> set (files_of [] bank).
                  endsWith (last p) ''.md'' \<or> endsWith (last p) ''.json''
                  \<longrightarrow> \<not> sublist ''[PROJECT_NAME]'' c))"
proof -
  let ?rs = "replacements ''Foo'' description architecture framework language (env_date env)"
  let ?text = "activeContext (env_date env) architecture framework language"
  let ?F = "\<lambda>(p, content). (p, if endsWith (last p) ''.md'' \<or> endsWith (last p) ''.json''
                                then replace_placeholders ?rs content else content)"
  let ?other = "\<lambda>(p :: string list, c :: string). p \<noteq> [''context'', ''active.md'']"
  from initMemoryBank_scaffold[OF assms(3,4)] assms(1) obtain fs0 where
    "scaffold env fs0 ''Foo'' description architecture framework language = Inr fs'"
    "map_of fs0 ''memory-bank'' = None" "map_of fs0 ''memory-bank-template'' = Some (Dir template)"
    by auto
  from scaffold_bank[OF this(3) assms(2) this(2,1)] obtain copied bank where
    c: "files_of [] copied = files_of [] template"
    and w: "write_active_context (replaceInDirectory copied ?rs (env_now env)) ?text (env_now env) = Inr bank"
    and b: "map_of fs' ''memory-bank'' = Some (Dir bank)" by blast
  have r: "files_of [] (replaceInDirectory copied ?rs (env_now env)) = map ?F (files_of [] template)"
    unfolding files_of_replaceInDirectory c ..
  have step: "replace_placeholders ?rs content
              = replace_placeholders (tl ?rs) (replace_placeholder ''[PROJECT_NAME]'' ''Foo'' content)"
    for content by (subst replacements_Foo) simp
  have "filter ?other (files_of [] bank) = filter ?other (map ?F (files_of [] template))"
    unfolding write_active_context_files(1)[OF w] r ..
  also have "filter ?other (map ?F xs) = map ?F (filter ?other xs)" for xs
    by (induction xs) (auto split: prod.splits)
  finally have eq: "filter ?other (files_of [] bank) = map ?F (filter ?other (files_of [] template))" .
  have rel: "list_all2 (\<lambda>(p, content) (p', content'). p' = p \<and>
             (if endsWith (last p) ''.md'' \<or> endsWith (last p) ''.json''
              then \<exists>content1. replaced_everywhere ''[PROJECT_NAME]'' ''Foo'' content content1
                     \<and> content' = replace_placeholders (tl ?rs) content1
              else content' = content))
           (filter ?other (files_of [] template))
           (filter ?other (files_of [] bank))"
    unfolding eq
  proof (rule list_all2_all_nthI)
    show "length (filter ?other (files_of [] template))
          = length (map ?F (filter ?other (files_of [] template)))" by simp
  next
    fix i assume "i < length (filter ?other (files_of [] template))"
    then show "(case filter ?other (files_of [] template) ! i of
           (p, content) \<Rightarrow> \<lambda>(p', content'). p' = p \<and>
             (if endsWith (last p) ''.md'' \<or> endsWith (last p) ''.json''
              then \<exists>content1. replaced_everywhere ''[PROJECT_NAME]'' ''Foo'' content content1
                     \<and> content' = replace_placeholders (tl ?rs) content1
              else content' = content))
          (map ?F (filter ?other (files_of [] template)) ! i)"
      using project_name_replaced step by (auto split: prod.splits)
  qed
  have free: "\<forall>(p, c) \<in> set (files_of [] bank).
                  endsWith (last p) ''.md'' \<or> endsWith (last p) ''.json''
                  \<longrightarrow> \<not> sublist ''[PROJECT_NAME]'' c"
    if plain: "\<forall>v \<in> snd ` set (tl ?rs). foreign_to ''[PROJECT_NAME]'' v"
  proof -
    from plain later_placeholders[of "''Foo''" description architecture framework language "env_date env"]
    have rs: "\<forall>(p, v) \<in> set (tl ?rs). p \<noteq> [] \<and> foreign_to ''[PROJECT_NAME]'' v" by fastforce
    have md: "\<not> sublist ''[PROJECT_NAME]'' (replace_placeholders ?rs content)" for content
    proof -
      from project_name_replaced[of content]
      have "\<not> sublist ''[PROJECT_NAME]'' (replace_placeholder ''[PROJECT_NAME]'' ''Foo'' content)"
        by (simp add: replaced_everywhere_def)
      from replace_placeholders_foreign[OF rs this] show ?thesis unfolding step .
    qed
    from plain later_values[of architecture framework language "env_date env" "''Foo''" description]
    have "foreign_to ''[PROJECT_NAME]'' architecture" "foreign_to ''[PROJECT_NAME]'' framework"
      "foreign_to ''[PROJECT_NAME]'' language" "foreign_to ''[PROJECT_NAME]'' (env_date env)"
      by blast+
    then have "CHR ''['' \<notin> set (env_date env)" "CHR ''['' \<notin> set architecture"
      "CHR ''['' \<notin> set framework" "CHR ''['' \<notin> set language"
      by (simp_all add: foreign_to_def)
    then have "CHR ''['' \<notin> set ?text" by (rule activeContext_no_bracket)
    moreover have "CHR ''['' \<in> set c" if "sublist ''[PROJECT_NAME]'' c" for c
      using set_mono_sublist[OF that] by auto
    ultimately have act: "\<not> sublist ''[PROJECT_NAME]'' ?text" by blast
    show ?thesis
    proof (intro ballI, clarify)
      fix p c
      assume mem: "(p, c) \<in> set (files_of [] bank)"
        and ext: "endsWith (last p) ''.md'' \<or> endsWith (last p) ''.json''"
        and sub: "sublist ''[PROJECT_NAME]'' c"
      from mem write_active_context_files(3)[OF w]
      consider "c = ?text" | "(p, c) \<in> set (map ?F (files_of [] template))"
        unfolding r by auto
      then show False
      proof cases
        case 1
        with act sub show False by simp
      next
        case 2
        with ext have "\<exists>content. c = replace_placeholders ?rs content" by auto
        with md sub show False by blast
      qed
    qed
  qed
  from b rel write_active_context_files(2)[OF w] free show ?thesis by blast
qed

theorem placeholder_substitution_witness:
  "\<exists>fs' out.
      initMemoryBank
        \<lparr>env_date = ''2026-01-01'', env_now = ''t1'', env_searchScript = ''s'', env_package_scripts = Inr\<rparr>
        [(''memory-bank-template'',
          Dir [(''context'', Dir [(''brief.md'', File ''# [PROJECT_NAME]: [PROJECT_DESCRIPTION]'' \<lparr>st_size = 39, st_mtime = ''t0''\<rparr>)]),
               (''tool.js'', File ''// [PROJECT_NAME]'' \<lparr>st_size = 17, st_mtime = ''t0''\<rparr>)])]
        [''Foo'', ''A demo'', ''monolith'', ''Express'', ''Go'']
      = Inr (fs', out)
      \<and> (\<exists>bank. map_of fs' ''memory-bank'' = Some (Dir bank)
           \<and> list_all2 (\<lambda>(p, content) (p', content'). p' = p \<and>
                 (if endsWith (last p) ''.md'' \<or> endsWith (last p) ''.json''
                  then \<exists>content1. replaced_everywhere ''[PROJECT_NAME]'' ''Foo'' content content1
                         \<and> content' = replace_placeholders
                              (tl (replacements ''Foo'' ''A demo'' ''monolith'' ''Express'' ''Go'' ''2026-01-01''))
                              content1
                  else content' = content))
               [([''context'', ''brief.md''], ''# [PROJECT_NAME]: [PROJECT_DESCRIPTION]''),
                ([''tool.js''], ''// [PROJECT_NAME]'')]
               (filter (\<lambda>(p, c). p \<noteq> [''context'', ''active.md'']) (files_of [] bank))
           \<and> ([''context'', ''active.md''], activeContext ''2026-01-01'' ''monolith'' ''Express'' ''Go'')
               \<in> set (files_of [] bank)
           \<and> (\<forall>(p, c) \<in> set (files_of [] bank).
                  endsWith (last p) ''.md'' \<or> endsWith (last p) ''.json''
                  \<longrightarrow> \<not> sublist ''[PROJECT_NAME]'' c))"
proof -
  let ?env = "\<lparr>env_date = ''2026-01-01'', env_now = ''t1'', env_searchScript = ''s'', env_package_scripts = Inr\<rparr>"
  let ?template = "[(''context'', Dir [(''brief.md'', File ''# [PROJECT_NAME]: [PROJECT_DESCRIPTION]'' \<lparr>st_size = 39, st_mtime = ''t0''\<rparr>)]),
               (''tool.js'', File ''// [PROJECT_NAME]'' \<lparr>st_size = 17, st_mtime = ''t0''\<rparr>)]"
  let ?fs = "[(''memory-bank-template'', Dir ?template)]"
  let ?run = "initMemoryBank ?env ?fs [''Foo'', ''A demo'', ''monolith'', ''Express'', ''Go'']"
  have "\<not> isl ?run" by code_simp
  then obtain fs' out where run: "?run = Inr (fs', out)" by (cases ?run) auto
  have template: "map_of ?fs ''memory-bank-template'' = Some (Dir ?template)" by simp
  have wf: "wf_entries ?template" by (simp add: valid_name_def)
  have fresh: "map_of ?fs ''memory-bank'' = None
         \<or> (\<exists>overwrite unread. [] = overwrite # unread \<and> toLowerCase overwrite = ''y'')" by simp
  have plain: "\<forall>v \<in> snd ` set (tl (replacements ''Foo'' ''A demo'' ''monolith'' ''Express'' ''Go'' ''2026-01-01'')).
              foreign_to ''[PROJECT_NAME]'' v" by code_simp
  have files: "filter (\<lambda>(p, c). p \<noteq> [''context'', ''active.md'']) (files_of [] ?template)
      = [([''context'', ''brief.md''], ''# [PROJECT_NAME]: [PROJECT_DESCRIPTION]''),
         ([''tool.js''], ''// [PROJECT_NAME]'')]" by simp
  from placeholder_substitution[OF template wf fresh run] plain run show ?thesis
    unfolding files by (simp only: env.simps) blast
qed

text \<open>Runs of the whole scaffolder with the project name \<^verbatim>\<open>Foo\<close> that leave the token in the
  output directory: in \<^verbatim>\<open>tool.js\<close>, which is copied but never rewritten; in \<^verbatim>\<open>brief.md\<close>, when
  the description typed by the user holds the token; in \<^verbatim>\<open>notes.md\<close>, when the framework is left
  empty or is \<^verbatim>\<open>NA\<close> and the template has the placeholder of the framework inside the letters of
  the token; and in \<^verbatim>\<open>notes.md\<close> again, when the description is \<^verbatim>\<open>$'\<close>, which \<^verbatim>\<open>replace\<close> expands to
  the text behind the match.\<close>

theorem token_left_counterexample:
  "map_sum id (file_at [''memory-bank'', ''tool.js''] \<circ> fst)
     (initMemoryBank
        \<lparr>env_date = ''2026-01-01'', env_now = ''t1'', env_searchScript = ''s'', env_package_scripts = Inr\<rparr>
        [(''memory-bank-template'',
          Dir [(''context'', Dir [(''brief.md'', File ''# [PROJECT_NAME]: [PROJECT_DESCRIPTION]'' \<lparr>st_size = 39, st_mtime = ''t0''\<rparr>)]),
               (''tool.js'', File ''// [PROJECT_NAME]'' \<lparr>st_size = 17, st_mtime = ''t0''\<rparr>)])]
        [''Foo'', ''A demo'', ''monolith'', ''Express'', ''Go''])
   = Inr (Some ''// [PROJECT_NAME]'')
   \<and> map_sum id (file_at [''memory-bank'', ''context'', ''brief.md''] \<circ> fst)
     (initMemoryBank
        \<lparr>env_date = ''2026-01-01'', env_now = ''t1'', env_searchScript = ''s'', env_package_scripts = Inr\<rparr>
        [(''memory-bank-template'',
          Dir [(''context'', Dir [(''brief.md'', File ''# [PROJECT_NAME]: [PROJECT_DESCRIPTION]'' \<lparr>st_size = 39, st_mtime = ''t0''\<rparr>)]),
               (''tool.js'', File ''// [PROJECT_NAME]'' \<lparr>st_size = 17, st_mtime = ''t0''\<rparr>)])]
        [''Foo'', ''about [PROJECT_NAME]'', ''monolith'', ''Express'', ''Go''])
   = Inr (Some ''# Foo: about [PROJECT_NAME]'')
   \<and> map_sum id (file_at [''memory-bank'', ''notes.md''] \<circ> fst)
     (initMemoryBank
        \<lparr>env_date = ''2026-01-01'', env_now = ''t1'', env_searchScript = ''s'', env_package_scripts = Inr\<rparr>
        [(''memory-bank-template'',
          Dir [(''context'', Dir []),
               (''notes.md'', File ''[PROJECT_[Your framework]NAME]'' \<lparr>st_size = 30, st_mtime = ''t0''\<rparr>)])]
        [''Foo'', ''A demo'', ''monolith'', [], ''Go''])
   = Inr (Some ''[PROJECT_NAME]'')
   \<and> map_sum id (file_at [''memory-bank'', ''notes.md''] \<circ> fst)
     (initMemoryBank
        \<lparr>env_date = ''2026-01-01'', env_now = ''t1'', env_searchScript = ''s'', env_package_scripts = Inr\<rparr>
        [(''memory-bank-template'',
          Dir [(''context'', Dir []),
               (''notes.md'', File ''[PROJECT_[Your framework]ME]'' \<lparr>st_size = 28, st_mtime = ''t0''\<rparr>)])]
        [''Foo'', ''A demo'', ''monolith'', ''NA'', ''Go''])
   = Inr (Some ''[PROJECT_NAME]'')
   \<and> map_sum id (file_at [''memory-bank'', ''notes.md''] \<circ> fst)
     (initMemoryBank
        \<lparr>env_date = ''2026-01-01'', env_now = ''t1'', env_searchScript = ''s'', env_package_scripts = Inr\<rparr>
        [(''memory-bank-template'',
          Dir [(''context'', Dir []),
               (''notes.md'', File ''[PROJECT_[PROJECT_DESCRIPTION]NAME]'' \<lparr>st_size = 35, st_mtime = ''t0''\<rparr>)])]
        [''Foo'', [CHR ''$'', CHR 0x27], ''monolith'', ''Express'', ''Go''])
   = Inr (Some ''[PROJECT_NAME]NAME]'')"
  by code_simp

end
